theory Spec2Isabelle
  imports Complex_Main "HOL-Library.Log_Nat"
begin

section \<open>Token-bucket rate limiter (websocket/rate-limiter.js)\<close>

text \<open>
  Times are the integer millisecond readings of \<^verbatim>\<open>Date.now()\<close>. Every method of the
  limiter is synchronous; the clock readings taken inside one call are modelled as the
  single argument \<open>now\<close>. Token counts, rates and costs are JavaScript numbers that stay
  integral for an integral configuration and integral costs; they are modelled as \<open>int\<close>.
\<close>

type_synonym key = string

subsection \<open>class TokenBucket\<close>

record TokenBucket =
  capacity :: int
  tokens :: int
  refillRate :: int
  refillInterval :: int
  lastRefill :: int

text \<open>The constructor: a new bucket is full and was last refilled at creation time.\<close>

definition new_TokenBucket :: "int \<Rightarrow> int \<Rightarrow> int \<Rightarrow> int \<Rightarrow> TokenBucket" where
  "new_TokenBucket now cap rate interval =
     \<lparr>capacity = cap, tokens = cap, refillRate = rate, refillInterval = interval,
      lastRefill = now\<rparr>"

text \<open>
  \<^verbatim>\<open>Math.floor(timePassed / this.refillInterval)\<close> on integers is the floored quotient
  \<open>div\<close> for a non-zero interval. For an interval of 0 the quotient of a positive
  \<^verbatim>\<open>timePassed\<close> is \<^verbatim>\<open>Infinity\<close>, and with a positive refill rate \<^verbatim>\<open>Math.min\<close> then fills the
  bucket; the quotient of a \<^verbatim>\<open>timePassed\<close> that is 0 or negative is \<^verbatim>\<open>NaN\<close> or \<^verbatim>\<open>-Infinity\<close>, which
  are not greater than 0. (With an interval of 0 and a refill rate that is not positive
  the token count of the code stops being an integer, \<^verbatim>\<open>NaN\<close> or \<^verbatim>\<open>-Infinity\<close>; the integer
  field cannot hold that, and the bucket is left as it is.)
\<close>

definition refill :: "int \<Rightarrow> TokenBucket \<Rightarrow> TokenBucket" where
  "refill now b =
     (let timePassed = now - lastRefill b
      in if refillInterval b = 0
         then (if timePassed > 0 \<and> refillRate b > 0
               then b\<lparr>tokens := capacity b, lastRefill := now\<rparr> else b)
         else (let intervalsElapsed = timePassed div refillInterval b
               in if intervalsElapsed > 0
                  then (let tokensToAdd = intervalsElapsed * refillRate b
                        in b\<lparr>tokens := min (capacity b) (tokens b + tokensToAdd),
                             lastRefill := now\<rparr>)
                  else b))"

definition tryConsume :: "int \<Rightarrow> int \<Rightarrow> TokenBucket \<Rightarrow> bool \<times> TokenBucket" where
  "tryConsume now n b =
     (let b1 = refill now b
      in if tokens b1 \<ge> n then (True, b1\<lparr>tokens := tokens b1 - n\<rparr>) else (False, b1))"

definition getTokens :: "int \<Rightarrow> TokenBucket \<Rightarrow> int \<times> TokenBucket" where
  "getTokens now b = (let b1 = refill now b in (tokens b1, b1))"

subsection \<open>class RateLimiter: options\<close>

text \<open>
  The options object the constructor receives: every key may be absent (\<open>None\<close>).
\<close>

record option_args =
  a_capacity :: "int option"
  a_refillRate :: "int option"
  a_refillInterval :: "int option"
  a_maxEventsPerSecond :: "int option"
  a_autoThrottle :: "bool option"
  a_throttleLatency :: "int option"
  a_banThreshold :: "int option"
  a_banDuration :: "int option"

record limiter_options =
  o_capacity :: int
  o_refillRate :: int
  o_refillInterval :: int
  o_maxEventsPerSecond :: int
  o_autoThrottle :: bool
  o_throttleLatency :: int
  o_banThreshold :: int
  o_banDuration :: int

text \<open>\<^verbatim>\<open>options.x || d\<close>: an absent key and the number 0 are falsy.\<close>

definition js_or :: "int option \<Rightarrow> int \<Rightarrow> int" where
  "js_or v d = (case v of None \<Rightarrow> d | Some x \<Rightarrow> if x = 0 then d else x)"

text \<open>\<^verbatim>\<open>...options\<close> after the defaults: a key that is present overrides the default.\<close>

definition spread :: "'a option \<Rightarrow> 'a \<Rightarrow> 'a" where
  "spread v d = (case v of None \<Rightarrow> d | Some x \<Rightarrow> x)"

definition make_options :: "option_args \<Rightarrow> limiter_options" where
  "make_options a =
     \<lparr>o_capacity = spread (a_capacity a) (js_or (a_capacity a) 10),
      o_refillRate = spread (a_refillRate a) (js_or (a_refillRate a) 5),
      o_refillInterval = spread (a_refillInterval a) (js_or (a_refillInterval a) 1000),
      o_maxEventsPerSecond = spread (a_maxEventsPerSecond a) (js_or (a_maxEventsPerSecond a) 5),
      o_autoThrottle = spread (a_autoThrottle a)
         (case a_autoThrottle a of Some x \<Rightarrow> x | None \<Rightarrow> True),
      o_throttleLatency = spread (a_throttleLatency a) (js_or (a_throttleLatency a) 2000),
      o_banThreshold = spread (a_banThreshold a) (js_or (a_banThreshold a) 50),
      o_banDuration = spread (a_banDuration a) (js_or (a_banDuration a) 300000)\<rparr>"

definition no_args :: option_args where
  "no_args =
     \<lparr>a_capacity = None, a_refillRate = None, a_refillInterval = None,
      a_maxEventsPerSecond = None, a_autoThrottle = None, a_throttleLatency = None,
      a_banThreshold = None, a_banDuration = None\<rparr>"

text \<open>The options the WebSocket server passes to its limiter (websocket/server.js).\<close>

definition server_args :: option_args where
  "server_args =
     \<lparr>a_capacity = Some 20, a_refillRate = Some 5, a_refillInterval = None,
      a_maxEventsPerSecond = Some 5, a_autoThrottle = Some True, a_throttleLatency = Some 2000,
      a_banThreshold = Some 50, a_banDuration = Some 300000\<rparr>"

subsection \<open>class RateLimiter: state\<close>

record violation =
  count :: int
  firstViolation :: int
  lastViolation :: int

record ban_record =
  bannedAt :: int
  duration :: int
  reason :: string

record RateLimiter =
  options :: limiter_options
  buckets :: "key \<rightharpoonup> TokenBucket"
  violations :: "key \<rightharpoonup> violation"
  bannedSessions :: "key \<rightharpoonup> ban_record"

definition new_RateLimiter :: "option_args \<Rightarrow> RateLimiter" where
  "new_RateLimiter a =
     \<lparr>options = make_options a, buckets = Map.empty, violations = Map.empty,
      bannedSessions = Map.empty\<rparr>"

definition getBucket :: "int \<Rightarrow> key \<Rightarrow> RateLimiter \<Rightarrow> TokenBucket \<times> RateLimiter" where
  "getBucket now sessionId rl =
     (case buckets rl sessionId of
        Some b \<Rightarrow> (b, rl)
      | None \<Rightarrow>
          (let b = new_TokenBucket now (o_capacity (options rl)) (o_refillRate (options rl))
                     (o_refillInterval (options rl))
           in (b, rl\<lparr>buckets := (buckets rl)(sessionId \<mapsto> b)\<rparr>)))"

definition ban :: "int \<Rightarrow> key \<Rightarrow> int \<Rightarrow> RateLimiter \<Rightarrow> RateLimiter" where
  "ban now sessionId dur rl =
     rl\<lparr>bannedSessions := (bannedSessions rl)(sessionId \<mapsto>
        \<lparr>bannedAt = now, duration = dur, reason = ''excessive_rate_limit_violations''\<rparr>)\<rparr>"

definition isBanned :: "int \<Rightarrow> key \<Rightarrow> RateLimiter \<Rightarrow> bool \<times> RateLimiter" where
  "isBanned now sessionId rl =
     (case bannedSessions rl sessionId of
        None \<Rightarrow> (False, rl)
      | Some bn \<Rightarrow>
          (let elapsed = now - bannedAt bn
           in if elapsed \<ge> duration bn
              then (False, rl\<lparr>bannedSessions := (bannedSessions rl)(sessionId := None)\<rparr>)
              else (True, rl)))"

definition getBanTimeRemaining :: "int \<Rightarrow> key \<Rightarrow> RateLimiter \<Rightarrow> int" where
  "getBanTimeRemaining now sessionId rl =
     (case bannedSessions rl sessionId of
        None \<Rightarrow> 0
      | Some bn \<Rightarrow> (let elapsed = now - bannedAt bn in max 0 (duration bn - elapsed)))"

definition recordViolation :: "int \<Rightarrow> key \<Rightarrow> RateLimiter \<Rightarrow> RateLimiter" where
  "recordViolation now sessionId rl =
     (let v0 = (case violations rl sessionId of
                  None \<Rightarrow> \<lparr>count = 0, firstViolation = now, lastViolation = now\<rparr>
                | Some v \<Rightarrow> v);
          v1 = v0\<lparr>count := count v0 + 1, lastViolation := now\<rparr>;
          rl1 = rl\<lparr>violations := (violations rl)(sessionId \<mapsto> v1)\<rparr>
      in if count v1 \<ge> o_banThreshold (options rl1)
         then ban now sessionId (o_banDuration (options rl1)) rl1
         else rl1)"

text \<open>
  \<^verbatim>\<open>Math.ceil(1 / refillRate) * refillInterval\<close>; with a refill rate of 0 the quotient is
  not finite, which is the value \<open>None\<close>.
\<close>

definition calculateRetryAfter :: "RateLimiter \<Rightarrow> int option" where
  "calculateRetryAfter rl =
     (let tokensNeeded = 1::int; r = o_refillRate (options rl)
      in if r = 0 then None
         else Some (- ((- tokensNeeded) div r) * o_refillInterval (options rl)))"

datatype admit_result =
    Allowed (tokensRemaining: int)
  | RateLimited (tokensAvailable: int) (retryAfterLimit: "int option")
  | Banned (retryAfter: int)

fun allowed :: "admit_result \<Rightarrow> bool" where
  "allowed (Allowed _) = True"
| "allowed _ = False"

definition store_bucket :: "key \<Rightarrow> TokenBucket \<Rightarrow> RateLimiter \<Rightarrow> RateLimiter" where
  "store_bucket sessionId b rl = rl\<lparr>buckets := (buckets rl)(sessionId \<mapsto> b)\<rparr>"

text \<open>
  \<^verbatim>\<open>isAllowed\<close>. The bucket is an object held by the map, so what \<^verbatim>\<open>tryConsume\<close> and
  \<^verbatim>\<open>getTokens\<close> do to it is written back under its key.
\<close>

definition isAllowed :: "int \<Rightarrow> key \<Rightarrow> int \<Rightarrow> RateLimiter \<Rightarrow> admit_result \<times> RateLimiter" where
  "isAllowed now sessionId cost rl =
     (let (banned, rl1) = isBanned now sessionId rl
      in if banned then (Banned (getBanTimeRemaining now sessionId rl1), rl1)
         else
           (let (bucket, rl2) = getBucket now sessionId rl1;
                (ok, bucket1) = tryConsume now cost bucket;
                rl3 = store_bucket sessionId bucket1 rl2
            in if \<not> ok
               then (let rl4 = recordViolation now sessionId rl3;
                         (avail, bucket2) = getTokens now bucket1
                     in (RateLimited avail (calculateRetryAfter rl4),
                         store_bucket sessionId bucket2 rl4))
               else (let (remaining, bucket2) = getTokens now bucket1
                     in (Allowed remaining, store_bucket sessionId bucket2 rl3))))"

definition unban :: "key \<Rightarrow> RateLimiter \<Rightarrow> RateLimiter" where
  "unban sessionId rl =
     rl\<lparr>bannedSessions := (bannedSessions rl)(sessionId := None),
        violations := (violations rl)(sessionId := None)\<rparr>"

definition reset :: "key \<Rightarrow> RateLimiter \<Rightarrow> RateLimiter" where
  "reset sessionId rl =
     rl\<lparr>buckets := (buckets rl)(sessionId := None),
        violations := (violations rl)(sessionId := None)\<rparr>"

text \<open>\<^verbatim>\<open>cleanup\<close>: the three loops over the maps, entry by entry.\<close>

definition cleanup :: "int \<Rightarrow> RateLimiter \<Rightarrow> RateLimiter" where
  "cleanup now rl =
     (let maxAge = 3600000::int
      in rl\<lparr>buckets := (\<lambda>k. case buckets rl k of
                  None \<Rightarrow> None
                | Some b \<Rightarrow> if now - lastRefill b > maxAge then None else Some b),
            violations := (\<lambda>k. case violations rl k of
                  None \<Rightarrow> None
                | Some v \<Rightarrow> if now - lastViolation v > maxAge then None else Some v),
            bannedSessions := (\<lambda>k. case bannedSessions rl k of
                  None \<Rightarrow> None
                | Some bn \<Rightarrow> if now - bannedAt bn \<ge> duration bn then None else Some bn)\<rparr>)"

subsection \<open>Auxiliary notions for the token-conservation property\<close>

text \<open>
  A bucket of a sane configuration: a positive refill interval, a non-negative refill
  rate, and a token count between 0 and the capacity (what the constructor and
  \<^verbatim>\<open>refill\<close>/\<^verbatim>\<open>tryConsume\<close> maintain).
\<close>

definition wf_bucket :: "TokenBucket \<Rightarrow> bool" where
  "wf_bucket b \<longleftrightarrow> 0 \<le> tokens b \<and> tokens b \<le> capacity b \<and> 0 \<le> refillRate b \<and> 0 < refillInterval b"

text \<open>
  A sequence of cost-1 \<^verbatim>\<open>isAllowed\<close> calls, each with its key and clock reading; the
  number of them on key \<open>k\<close> that return \<^verbatim>\<open>allowed: true\<close>.
\<close>

fun admitted :: "key \<Rightarrow> (key \<times> int) list \<Rightarrow> RateLimiter \<Rightarrow> nat" where
  "admitted k [] rl = 0"
| "admitted k ((k', now) # cs) rl =
     (case isAllowed now k' 1 rl of (r, rl') \<Rightarrow>
        (if k' = k \<and> allowed r then 1 else 0) + admitted k cs rl')"

text \<open>
  The measure used for the conservation proof: the tokens the bucket holds once the
  intervals elapsed up to \<open>t0\<close> are credited, plus everything the refill rule can still
  add up to \<open>tend\<close>.
\<close>

definition potential :: "int \<Rightarrow> int \<Rightarrow> TokenBucket \<Rightarrow> int" where
  "potential t0 tend b =
     (let k0 = max 0 ((t0 - lastRefill b) div refillInterval b);
          K = (tend - lastRefill b) div refillInterval b
      in min (capacity b) (tokens b + k0 * refillRate b) + (K - k0) * refillRate b)"

definition bucket_inv :: "int \<Rightarrow> TokenBucket \<Rightarrow> bool" where
  "bucket_inv tend b \<longleftrightarrow> wf_bucket b \<and> lastRefill b \<le> tend"

text \<open>What one cost-1 admission does to the bucket it reaches.\<close>

definition consume_step :: "int \<Rightarrow> TokenBucket \<Rightarrow> bool \<times> TokenBucket" where
  "consume_step now b = (case tryConsume now 1 b of (ok, b1) \<Rightarrow> (ok, snd (getTokens now b1)))"

text \<open>A concrete bucket and limiter for the instances below.\<close>

definition demo_bucket :: TokenBucket where
  "demo_bucket = \<lparr>capacity = 20, tokens = 2, refillRate = 5, refillInterval = 1000, lastRefill = 0\<rparr>"

definition demo_limiter :: RateLimiter where
  "demo_limiter = (new_RateLimiter server_args)\<lparr>buckets := [''s'' \<mapsto> demo_bucket]\<rparr>"

subsection \<open>JavaScript numbers\<close>

text \<open>
  A JavaScript number is an IEEE 754 double: a rational that the binary64 format holds,
  an infinity, or NaN; the sign of a zero is not modelled. \<open>to_double\<close> rounds a rational
  to the nearest double, a tie to the even significand: the significand has 53 bits, the
  exponent of the last place is at least -1074, and what rounds to \<open>2^1024\<close> or more is an
  infinity. \<open>floor_log2\<close> is the binary exponent of a positive rational.
\<close>

datatype jsnum = Fin rat | PosInfinity | NegInfinity | NaN

definition floor_log2 :: "rat \<Rightarrow> int" where
  "floor_log2 x =
     (case quotient_of x of (a, b) \<Rightarrow>
        (let d = bitlen a - bitlen b in if 2 powi d \<le> x then d else d - 1))"

definition round_half_even :: "rat \<Rightarrow> int" where
  "round_half_even x =
     (let f = \<lfloor>x\<rfloor>; d = x - of_int f
      in if d < 1 / 2 then f else if d > 1 / 2 then f + 1 else if even f then f else f + 1)"

definition to_double :: "rat \<Rightarrow> jsnum" where
  "to_double x =
     (if x = 0 then Fin 0
      else (let a = \<bar>x\<bar>;
                e = max (- 1074) (floor_log2 a - 52);
                m = round_half_even (a / 2 powi e);
                v = of_int m * 2 powi e
            in if v \<ge> 2 powi 1024 then (if x > 0 then PosInfinity else NegInfinity)
               else Fin (if x > 0 then v else - v)))"

text \<open>The number that holds an integer (exactly, up to \<open>2^53\<close> in magnitude).\<close>

definition num :: "int \<Rightarrow> jsnum" where
  "num n = to_double (rat_of_int n)"

text \<open>
  The operators \<^verbatim>\<open>/\<close>, \<^verbatim>\<open>*\<close> and \<^verbatim>\<open>>\<close>: the exact result, rounded. A zero divisor is the
  positive zero, which is what the difference of two equal clock readings is.
\<close>

fun js_divide :: "jsnum \<Rightarrow> jsnum \<Rightarrow> jsnum" where
  "js_divide (Fin x) (Fin y) =
     (if y = 0 then (if x > 0 then PosInfinity else if x < 0 then NegInfinity else NaN)
      else to_double (x / y))"
| "js_divide (Fin x) PosInfinity = Fin 0"
| "js_divide (Fin x) NegInfinity = Fin 0"
| "js_divide PosInfinity (Fin y) = (if y \<ge> 0 then PosInfinity else NegInfinity)"
| "js_divide NegInfinity (Fin y) = (if y \<ge> 0 then NegInfinity else PosInfinity)"
| "js_divide _ _ = NaN"

fun js_multiply :: "jsnum \<Rightarrow> jsnum \<Rightarrow> jsnum" where
  "js_multiply (Fin x) (Fin y) = to_double (x * y)"
| "js_multiply (Fin x) PosInfinity =
     (if x > 0 then PosInfinity else if x < 0 then NegInfinity else NaN)"
| "js_multiply (Fin x) NegInfinity =
     (if x > 0 then NegInfinity else if x < 0 then PosInfinity else NaN)"
| "js_multiply PosInfinity (Fin y) =
     (if y > 0 then PosInfinity else if y < 0 then NegInfinity else NaN)"
| "js_multiply NegInfinity (Fin y) =
     (if y > 0 then NegInfinity else if y < 0 then PosInfinity else NaN)"
| "js_multiply PosInfinity PosInfinity = PosInfinity"
| "js_multiply NegInfinity NegInfinity = PosInfinity"
| "js_multiply PosInfinity NegInfinity = NegInfinity"
| "js_multiply NegInfinity PosInfinity = NegInfinity"
| "js_multiply _ _ = NaN"

fun js_greater :: "jsnum \<Rightarrow> jsnum \<Rightarrow> bool" where
  "js_greater (Fin x) (Fin y) = (x > y)"
| "js_greater PosInfinity (Fin y) = True"
| "js_greater PosInfinity NegInfinity = True"
| "js_greater (Fin x) NegInfinity = True"
| "js_greater _ _ = False"

subsection \<open>Violation statistics\<close>

record violation_stats =
  vs_count :: int
  eventsPerSecond :: jsnum
  shouldThrottle :: bool
  throttleLatency :: int

definition getViolationStats :: "int \<Rightarrow> key \<Rightarrow> RateLimiter \<Rightarrow> violation_stats option" where
  "getViolationStats now sessionId rl =
     (case violations rl sessionId of
        None \<Rightarrow> None
      | Some v \<Rightarrow>
          (let dur = now - firstViolation v;
               eps = js_multiply (js_divide (num (count v)) (num dur)) (num 1000)
           in Some \<lparr>vs_count = count v, eventsPerSecond = eps,
                     shouldThrottle = js_greater eps (num (o_maxEventsPerSecond (options rl))),
                     throttleLatency = o_throttleLatency (options rl)\<rparr>))"

text \<open>
  The specification's formula, for comparison:
  \<open>eventsPerSecond = count / max(1, now - firstViolationAt)\<close>.
\<close>

definition spec_eventsPerSecond :: "int \<Rightarrow> int \<Rightarrow> int \<Rightarrow> rat" where
  "spec_eventsPerSecond cnt now first = rat_of_int cnt / rat_of_int (max 1 (now - first))"

text \<open>A limiter that has recorded one violation of key \<open>''s''\<close> at time 1000.\<close>

definition demo_violated :: RateLimiter where
  "demo_violated = (new_RateLimiter server_args)\<lparr>violations :=
      [''s'' \<mapsto> \<lparr>count = 1, firstViolation = 1000, lastViolation = 1000\<rparr>]\<rparr>"

text \<open>
  A limiter with a threshold of 4025 events per second that has recorded 161 violations of
  key \<open>''s''\<close>, the first of them at time 0.
\<close>

definition demo_rounding :: RateLimiter where
  "demo_rounding = (new_RateLimiter (server_args\<lparr>a_maxEventsPerSecond := Some 4025\<rparr>))\<lparr>violations :=
      [''s'' \<mapsto> \<lparr>count = 161, firstViolation = 0, lastViolation = 39\<rparr>]\<rparr>"

subsection \<open>Sequences of limiter calls\<close>

text \<open>
  The calls made on a live limiter, each at its clock reading. \<^verbatim>\<open>getViolationStats\<close>
  only reads.
\<close>

datatype limiter_call =
    IsAllowed key int
  | IsBanned key
  | GetViolationStats key
  | Unban key
  | Reset key
  | Cleanup

fun apply_call :: "int \<Rightarrow> limiter_call \<Rightarrow> RateLimiter \<Rightarrow> RateLimiter" where
  "apply_call now (IsAllowed k c) rl = snd (isAllowed now k c rl)"
| "apply_call now (IsBanned k) rl = snd (isBanned now k rl)"
| "apply_call now (GetViolationStats k) rl = rl"
| "apply_call now (Unban k) rl = unban k rl"
| "apply_call now (Reset k) rl = reset k rl"
| "apply_call now Cleanup rl = cleanup now rl"

fun run_calls :: "(int \<times> limiter_call) list \<Rightarrow> RateLimiter \<Rightarrow> RateLimiter" where
  "run_calls [] rl = rl"
| "run_calls ((now, c) # cs) rl = run_calls cs (apply_call now c rl)"

text \<open>A limiter holding a ban of key \<open>''s''\<close> created at time 1000.\<close>

definition demo_banned :: RateLimiter where
  "demo_banned = (new_RateLimiter server_args)\<lparr>bannedSessions :=
      [''s'' \<mapsto> \<lparr>bannedAt = 1000, duration = 300000, reason = ''excessive_rate_limit_violations''\<rparr>]\<rparr>"

text \<open>
  A limiter whose key \<open>''s''\<close> has an empty bucket and 49 recorded violations: the next
  denial is the 50th.
\<close>

definition demo_at_limit :: RateLimiter where
  "demo_at_limit = (new_RateLimiter server_args)\<lparr>
      buckets := [''s'' \<mapsto> \<lparr>capacity = 20, tokens = 0, refillRate = 5, refillInterval = 1000,
                              lastRefill = 1000\<rparr>],
      violations := [''s'' \<mapsto> \<lparr>count = 49, firstViolation = 500, lastViolation = 1000\<rparr>]\<rparr>"

section \<open>Admin API (routes/admin.js) over the session store and the command bus\<close>

subsection \<open>The session store (PostgresService) and the command bus (RedisService)\<close>

text \<open>
  Of a session row the admin routes write the columns \<^verbatim>\<open>mode\<close> and
  \<^verbatim>\<open>current_latency_ms\<close>. Whether a call on a store succeeds is a field of the state:
  \<^verbatim>\<open>updateSessionMode\<close>, \<^verbatim>\<open>logCommand\<close> and \<^verbatim>\<open>publish\<close> rethrow the client's error, which is
  the value \<open>Inl\<close> with the message and the state reached. The repository has two
  adapters for the event log; the newer one throws on a sessionHash that is not 64
  hexadecimal digits, which is the predicate \<open>clickhouse_rejects\<close> (constantly false for
  the older one). The columns have types (database/postgres/schema.sql):
  \<^verbatim>\<open>current_latency_ms INTEGER\<close>, \<^verbatim>\<open>admin_id VARCHAR(100)\<close> and \<^verbatim>\<open>admin_ip INET\<close>; a value the
  type does not take makes the statement fail. Which strings the type \<^verbatim>\<open>INET\<close> takes is
  the predicate \<open>inet_accepts\<close> of the store. A latency in a request body is an integral
  number when it is present. \<^verbatim>\<open>uuidv4()\<close> draws from a counter.
\<close>

datatype mode = normal | upspin | downspin | terminated

record session_row =
  mode :: mode
  current_latency_ms :: int

datatype command_type = SET_LATENCY | TERMINATE | TOAST_ALERT | REDIRECT

datatype command_payload =
    Latency int
  | Reason string
  | Toast string string int
  | Redirect_to string bool

record command =
  cmd_id :: nat
  cmd_type :: command_type
  cmd_payload :: command_payload

record audit_row =
  commandId :: nat
  audit_sessionHash :: key
  commandType :: command_type
  commandPayload :: command_payload
  adminId :: string
  adminIp :: string

record stores =
  sessions :: "key \<rightharpoonup> session_row"
  command_history :: "audit_row list"
  published :: "(key \<times> command) list"
  postgres_up :: bool
  redis_up :: bool
  clickhouse_rejects :: "key \<Rightarrow> bool"
  inet_accepts :: "string \<Rightarrow> bool"
  uuid_next :: nat

type_synonym 'a thrown = "(string \<times> stores) + 'a"

text \<open>The range of the type \<^verbatim>\<open>INTEGER\<close>.\<close>

definition int32 :: "int \<Rightarrow> bool" where
  "int32 n \<longleftrightarrow> - 2147483648 \<le> n \<and> n \<le> 2147483647"

text \<open>
  \<^verbatim>\<open>VARCHAR(n)\<close>: a longer string is an error unless the excess is spaces, which are cut off.
\<close>

definition fits_varchar :: "nat \<Rightarrow> string \<Rightarrow> bool" where
  "fits_varchar n s \<longleftrightarrow> list_all (\<lambda>ch. ch = CHR '' '') (drop n s)"

text \<open>\<^verbatim>\<open>UPDATE sessions SET mode = $1, current_latency_ms = $2 WHERE session_hash = $3\<close>\<close>

definition updateSessionMode :: "key \<Rightarrow> mode \<Rightarrow> int \<Rightarrow> stores \<Rightarrow> stores thrown" where
  "updateSessionMode sessionHash m latency st =
     (if \<not> postgres_up st then Inl (''postgres error'', st)
      else if \<not> int32 latency then Inl (''value out of range for type integer'', st)
      else Inr (case sessions st sessionHash of
                  None \<Rightarrow> st
                | Some row \<Rightarrow>
                    st\<lparr>sessions := (sessions st)(sessionHash \<mapsto>
                         row\<lparr>mode := m, current_latency_ms := latency\<rparr>)\<rparr>))"

text \<open>\<^verbatim>\<open>INSERT INTO command_history ... SELECT ... FROM sessions WHERE session_hash = $7\<close>\<close>

text \<open>
  \<^verbatim>\<open>logCommand\<close> itself puts \<^verbatim>\<open>command.adminId || "system"\<close> and
  \<^verbatim>\<open>command.adminIp || "127.0.0.1"\<close> into the statement.
\<close>

definition logCommand :: "audit_row \<Rightarrow> stores \<Rightarrow> stores thrown" where
  "logCommand row st =
     (let aid = (if adminId row = [] then ''system'' else adminId row);
          aip = (if adminIp row = [] then ''127.0.0.1'' else adminIp row)
      in if \<not> postgres_up st then Inl (''postgres error'', st)
         else if \<not> inet_accepts st aip
           then Inl (''invalid input syntax for type inet'', st)
         else if \<not> fits_varchar 100 aid
           then Inl (''value too long for type character varying(100)'', st)
         else Inr (case sessions st (audit_sessionHash row) of
                     None \<Rightarrow> st
                   | Some _ \<Rightarrow>
                       st\<lparr>command_history := command_history st @
                            [row\<lparr>adminId := take 100 aid, adminIp := aip\<rparr>]\<rparr>))"

text \<open>\<^verbatim>\<open>redis.publish('traffic:commands', { sessionHash, command })\<close>\<close>

definition publish :: "key \<Rightarrow> command \<Rightarrow> stores \<Rightarrow> stores thrown" where
  "publish sessionHash cmd st =
     (if \<not> redis_up st then Inl (''redis error'', st)
      else Inr (st\<lparr>published := published st @ [(sessionHash, cmd)]\<rparr>))"

definition uuidv4 :: "stores \<Rightarrow> nat \<times> stores" where
  "uuidv4 st = (uuid_next st, st\<lparr>uuid_next := Suc (uuid_next st)\<rparr>)"

subsection \<open>Requests and responses\<close>

datatype route =
    GET_sessions
  | GET_session key
  | POST_upspin key
  | POST_downspin key "int option"
  | POST_terminate key "string option"
  | POST_notify key "string option" "string option" "int option"
  | POST_redirect key "string option" "bool option"
  | GET_analytics
  | GET_stats
  | GET_high_risk
  | POST_batch_action "string option" "key list option" "int option" "string option"

record request =
  x_api_key :: "string option"
  x_admin_id :: "string option"
  ip :: string
  route :: route

datatype response_body =
    Unauthorized
  | Error_message string
  | Session_not_found
  | Message_is_required
  | URL_is_required
  | Invalid_request
  | Success_read
  | Success_command string key command
  | Success_batch "(key \<times> command) list"

record response =
  status :: nat
  body :: response_body

definition send :: "nat \<Rightarrow> response_body \<Rightarrow> response" where
  "send code b = \<lparr>status = code, body = b\<rparr>"

subsection \<open>The preHandler hook\<close>

text \<open>\<^verbatim>\<open>process.env.ADMIN_API_KEY || 'dev-admin-key-change-in-production'\<close>\<close>

definition validKey :: "string option \<Rightarrow> string" where
  "validKey env =
     (case env of
        None \<Rightarrow> ''dev-admin-key-change-in-production''
      | Some k \<Rightarrow> if k = [] then ''dev-admin-key-change-in-production'' else k)"

definition preHandler :: "string option \<Rightarrow> request \<Rightarrow> response option" where
  "preHandler env req =
     (let apiKey = x_api_key req
      in if apiKey \<noteq> Some (validKey env) then Some (send 401 Unauthorized) else None)"

subsection \<open>The route handlers\<close>

text \<open>
  The tail the five command routes share: publish the command, write the audit record,
  answer with the command; an error thrown on the way is answered with status 500.
\<close>

text \<open>\<^verbatim>\<open>request.headers['x-admin-id'] || 'api'\<close>\<close>

definition adminId_of :: "request \<Rightarrow> string" where
  "adminId_of req =
     (case x_admin_id req of None \<Rightarrow> ''api'' | Some a \<Rightarrow> if a = [] then ''api'' else a)"


definition publish_and_log ::
    "request \<Rightarrow> key \<Rightarrow> command \<Rightarrow> string \<Rightarrow> stores \<Rightarrow> response \<times> stores" where
  "publish_and_log req sessionHash cmd msg st =
     (case publish sessionHash cmd st of
        Inl (e, st1) \<Rightarrow> (send 500 (Error_message e), st1)
      | Inr st1 \<Rightarrow>
          (case logCommand
                  \<lparr>commandId = cmd_id cmd, audit_sessionHash = sessionHash,
                   commandType = cmd_type cmd, commandPayload = cmd_payload cmd,
                   adminId = adminId_of req, adminIp = ip req\<rparr> st1 of
             Inl (e, st2) \<Rightarrow> (send 500 (Error_message e), st2)
           | Inr st2 \<Rightarrow> (send 200 (Success_command msg sessionHash cmd), st2)))"

definition set_mode_and_command ::
    "request \<Rightarrow> key \<Rightarrow> mode \<Rightarrow> int \<Rightarrow> command_type \<Rightarrow> command_payload \<Rightarrow> string \<Rightarrow> stores
       \<Rightarrow> response \<times> stores" where
  "set_mode_and_command req sessionHash m latency ty pl msg st =
     (case updateSessionMode sessionHash m latency st of
        Inl (e, st1) \<Rightarrow> (send 500 (Error_message e), st1)
      | Inr st1 \<Rightarrow>
          (case uuidv4 st1 of (uid, st2) \<Rightarrow>
             publish_and_log req sessionHash \<lparr>cmd_id = uid, cmd_type = ty, cmd_payload = pl\<rparr>
               msg st2))"

text \<open>The loop of \<^verbatim>\<open>POST /batch-action\<close>; an unknown action skips the entry.\<close>

fun batch_loop ::
    "string \<Rightarrow> int option \<Rightarrow> string option \<Rightarrow> key list \<Rightarrow> (key \<times> command) list \<Rightarrow> stores
       \<Rightarrow> ((key \<times> command) list \<times> stores) thrown" where
  "batch_loop action latency_ms rsn [] results st = Inr (results, st)"
| "batch_loop action latency_ms rsn (sessionHash # rest) results st =
     (let lat = js_or latency_ms 2000;
          chosen =
            (if action = ''upspin'' then Some (upspin, 0, SET_LATENCY, Latency 0)
             else if action = ''downspin'' then Some (downspin, lat, SET_LATENCY, Latency lat)
             else if action = ''terminate''
               then Some (terminated, 0, TERMINATE,
                          Reason (case rsn of None \<Rightarrow> ''Batch termination''
                                  | Some r \<Rightarrow> if r = [] then ''Batch termination'' else r))
             else None)
      in case chosen of
           None \<Rightarrow> batch_loop action latency_ms rsn rest results st
         | Some (m, l, ty, pl) \<Rightarrow>
             (case updateSessionMode sessionHash m l st of
                Inl err \<Rightarrow> Inl err
              | Inr st1 \<Rightarrow>
                  (case uuidv4 st1 of (uid, st2) \<Rightarrow>
                     (let cmd = \<lparr>cmd_id = uid, cmd_type = ty, cmd_payload = pl\<rparr>
                      in case publish sessionHash cmd st2 of
                           Inl err \<Rightarrow> Inl err
                         | Inr st3 \<Rightarrow>
                             batch_loop action latency_ms rsn rest
                               (results @ [(sessionHash, cmd)]) st3))))"

text \<open>
  The handlers. What the read routes return is not modelled beyond the status. The read
  methods of the stores answer an error of their client with an empty result; the handler
  answers with status 500 what \<^verbatim>\<open>getSessionTimeline\<close> and \<^verbatim>\<open>redis.getOnlineSessions\<close>
  throw. The latter also trims the presence set of the bus, which this state does not
  hold.
\<close>

fun handler :: "request \<Rightarrow> stores \<Rightarrow> response \<times> stores" where
  "handler req st =
     (case route req of
        GET_sessions \<Rightarrow> (send 200 Success_read, st)
      | GET_session sessionHash \<Rightarrow>
          (if \<not> postgres_up st \<or> sessions st sessionHash = None
           then (send 404 Session_not_found, st)
           else if clickhouse_rejects st sessionHash
           then (send 500 (Error_message ''Invalid session hash format''), st)
           else (send 200 Success_read, st))
      | POST_upspin sessionHash \<Rightarrow>
          set_mode_and_command req sessionHash upspin 0 SET_LATENCY (Latency 0)
            ''Priority mode activated'' st
      | POST_downspin sessionHash latency_ms \<Rightarrow>
          (let lat = spread latency_ms 2000
           in set_mode_and_command req sessionHash downspin lat SET_LATENCY (Latency lat)
                ''Throttle mode activated'' st)
      | POST_terminate sessionHash rsn \<Rightarrow>
          (let r = spread rsn ''Session terminated by administrator''
           in set_mode_and_command req sessionHash terminated 0 TERMINATE (Reason r)
                ''Session terminated'' st)
      | POST_notify sessionHash message ty dur \<Rightarrow>
          (if message = None \<or> message = Some []
           then (send 400 Message_is_required, st)
           else (case uuidv4 st of (uid, st1) \<Rightarrow>
                   publish_and_log req sessionHash
                     \<lparr>cmd_id = uid, cmd_type = TOAST_ALERT,
                      cmd_payload = Toast (the message) (spread ty ''info'') (spread dur 5000)\<rparr>
                     ''Notification sent'' st1))
      | POST_redirect sessionHash url newTab \<Rightarrow>
          (if url = None \<or> url = Some []
           then (send 400 URL_is_required, st)
           else (case uuidv4 st of (uid, st1) \<Rightarrow>
                   publish_and_log req sessionHash
                     \<lparr>cmd_id = uid, cmd_type = REDIRECT,
                      cmd_payload = Redirect_to (the url) (spread newTab False)\<rparr>
                     ''Redirect command sent'' st1))
      | GET_analytics \<Rightarrow> (send 200 Success_read, st)
      | GET_stats \<Rightarrow>
          (if redis_up st then (send 200 Success_read, st)
           else (send 500 (Error_message ''redis error''), st))
      | GET_high_risk \<Rightarrow> (send 200 Success_read, st)
      | POST_batch_action action sessionHashes latency_ms rsn \<Rightarrow>
          (if action = None \<or> action = Some [] \<or> sessionHashes = None
           then (send 400 Invalid_request, st)
           else (case batch_loop (the action) latency_ms rsn (the sessionHashes) [] st of
                   Inl (e, st1) \<Rightarrow> (send 500 (Error_message e), st1)
                 | Inr (results, st1) \<Rightarrow> (send 200 (Success_batch results), st1))))"

text \<open>
  A request to a route under \<^verbatim>\<open>/admin\<close>, as Fastify runs it: the preHandler hook first, and
  the route handler only when the hook has not sent a reply.
\<close>

definition admin_request :: "string option \<Rightarrow> request \<Rightarrow> stores \<Rightarrow> response \<times> stores" where
  "admin_request env req st =
     (case preHandler env req of
        Some reply \<Rightarrow> (reply, st)
      | None \<Rightarrow> handler req st)"

text \<open>
  A session store holding one session in mode \<open>normal\<close>, and requests on it from the
  address \<open>10.0.0.1\<close>; of the type \<^verbatim>\<open>INET\<close> only that it takes this address is needed.
\<close>

definition demo_stores :: stores where
  "demo_stores =
     \<lparr>sessions = [''abcd'' \<mapsto> \<lparr>mode = normal, current_latency_ms = 0\<rparr>],
      command_history = [], published = [], postgres_up = True, redis_up = True,
      clickhouse_rejects = (\<lambda>h. False), inet_accepts = (\<lambda>a. a = ''10.0.0.1''),
      uuid_next = 0\<rparr>"

definition demo_request :: "string option \<Rightarrow> route \<Rightarrow> request" where
  "demo_request k r = \<lparr>x_api_key = k, x_admin_id = None, ip = ''10.0.0.1'', route = r\<rparr>"



section \<open>WebSocket server (websocket/server.js)\<close>

text \<open>
  The connection map is a JavaScript \<^verbatim>\<open>Map\<close>, kept here in insertion order. Of a socket the
  model keeps whether it is open and the frames sent on it. The calls the server makes on
  the session store, the event log and the command bus are recorded in the order they are
  made; the methods of those services are not part of this model, and the identifier of a
  published command is left out.
\<close>

datatype frame =
    Frame_connected key int
  | Frame_ping int
  | Frame_command command_type command_payload

record connection =
  conn_ip :: string
  sessionHash :: "key option"
  readyState_open :: bool
  connectedAt :: int
  lastActivity :: int
  eventCount :: nat
  outbox :: "frame list"

datatype service_call =
    UpsertSession "key option" string
  | TrackOnlineSession "key option"
  | LogEvent "key option" string
  | IncrementEventCount "key option" nat
  | UpdateRiskScore "key option" int bool
  | UpdateCommandStatus nat bool
  | PublishCommand key command_type command_payload
  | SetSessionMode key mode int
  | LogRateViolation key string
  | IncrementViolations key
  | UpdateSessionStatus key bool

text \<open>
  A parsed frame: its \<^verbatim>\<open>type\<close>, its \<^verbatim>\<open>sessionHash\<close> (\<open>None\<close> when absent or falsy), whether
  it carries \<^verbatim>\<open>metadata\<close>, for each element of \<^verbatim>\<open>events\<close>, when that is an array, whether
  it is \<^verbatim>\<open>null\<close> or \<^verbatim>\<open>undefined\<close>, and for an
  acknowledgement the command id and whether \<^verbatim>\<open>result\<close> is present and has an \<^verbatim>\<open>error\<close>.
\<close>

record message =
  msg_type :: string
  msg_sessionHash :: "key option"
  msg_has_metadata :: bool
  msg_events :: "bool list option"
  msg_commandId :: nat
  msg_result :: "bool option"

record ws_server =
  connections :: "(key \<times> connection) list"
  rateLimiter :: RateLimiter
  service_calls :: "service_call list"

definition new_ws_server :: ws_server where
  "new_ws_server =
     \<lparr>connections = [], rateLimiter = new_RateLimiter server_args, service_calls = []\<rparr>"

text \<open>\<^verbatim>\<open>Map.set\<close>: a present key keeps its place, a new key goes last.\<close>

fun map_set :: "key \<Rightarrow> 'v \<Rightarrow> (key \<times> 'v) list \<Rightarrow> (key \<times> 'v) list" where
  "map_set k v [] = [(k, v)]"
| "map_set k v ((k', v') # rest) =
     (if k' = k then (k, v) # rest else (k', v') # map_set k v rest)"

definition sendToClient :: "frame \<Rightarrow> connection \<Rightarrow> connection" where
  "sendToClient fr c = (if readyState_open c then c\<lparr>outbox := outbox c @ [fr]\<rparr> else c)"

text \<open>\<^verbatim>\<open>ws.close()\<close>: the socket is no longer open.\<close>

definition ws_close :: "connection \<Rightarrow> connection" where
  "ws_close c = c\<lparr>readyState_open := False\<rparr>"

text \<open>The \<^verbatim>\<open>'connection'\<close> event: a new socket, not bound to any session.\<close>

definition on_connection :: "int \<Rightarrow> key \<Rightarrow> string \<Rightarrow> ws_server \<Rightarrow> ws_server" where
  "on_connection now connectionId clientIp srv =
     (let c = \<lparr>conn_ip = clientIp, sessionHash = None, readyState_open = True,
                connectedAt = now, lastActivity = now, eventCount = 0, outbox = []\<rparr>;
          c1 = sendToClient (Frame_connected connectionId now) c
      in srv\<lparr>connections := map_set connectionId c1 (connections srv)\<rparr>)"

text \<open>
  The handlers a frame is routed to. Each returns the service calls it makes and whether
  it then throws: \<^verbatim>\<open>metadata.userAgent\<close> and \<^verbatim>\<open>result.error\<close> throw on an absent object, and
  \<^verbatim>\<open>event.timestamp\<close> throws on an element of \<^verbatim>\<open>events\<close> that is \<^verbatim>\<open>null\<close>.
\<close>

definition handleHandshake :: "connection \<Rightarrow> message \<Rightarrow> service_call list \<times> bool" where
  "handleHandshake c m =
     (if \<not> msg_has_metadata m then ([], True)
      else ([UpsertSession (msg_sessionHash m) (conn_ip c),
             TrackOnlineSession (msg_sessionHash m)], False))"

definition calculateRiskScore :: "violation_stats \<Rightarrow> int" where
  "calculateRiskScore stats =
     (let score0 = (if js_greater (eventsPerSecond stats) (num 10) then 40
                    else if js_greater (eventsPerSecond stats) (num 5) then 20 else 0);
          score1 = score0 + (if vs_count stats > 30 then 30
                             else if vs_count stats > 10 then 15 else 0)
      in min 100 score1)"

definition handleBatchEvents ::
    "int \<Rightarrow> RateLimiter \<Rightarrow> connection \<Rightarrow> message \<Rightarrow> service_call list \<times> bool" where
  "handleBatchEvents now rl c m =
     (case msg_events m of
        None \<Rightarrow> ([], False)
      | Some nulls \<Rightarrow>
          (let stamped = (case msg_sessionHash m of Some h \<Rightarrow> Some h | None \<Rightarrow> sessionHash c);
               sound = takeWhile (\<lambda>is_null. \<not> is_null) nulls;
               logged = map (\<lambda>e. LogEvent stamped (conn_ip c)) sound;
               counted = [IncrementEventCount (msg_sessionHash m) (length nulls)];
               stats = (case msg_sessionHash m of
                          None \<Rightarrow> None
                        | Some h \<Rightarrow> getViolationStats now h rl)
           in if length sound < length nulls then (logged, True)
              else (logged @ counted @
                     (case stats of
                        None \<Rightarrow> []
                      | Some s \<Rightarrow>
                          [UpdateRiskScore (msg_sessionHash m) (calculateRiskScore s)
                             (calculateRiskScore s > 80)]), False)))"

definition handleEvent :: "connection \<Rightarrow> message \<Rightarrow> service_call list \<times> bool" where
  "handleEvent c m =
     (let h = (case msg_sessionHash m of Some h \<Rightarrow> Some h | None \<Rightarrow> sessionHash c)
      in ([LogEvent h (conn_ip c), IncrementEventCount h 1], False))"

definition handleCommandAck :: "connection \<Rightarrow> message \<Rightarrow> service_call list \<times> bool" where
  "handleCommandAck c m =
     (case msg_result m of
        None \<Rightarrow> ([], True)
      | Some failed \<Rightarrow> ([UpdateCommandStatus (msg_commandId m) failed], False))"

definition route_message ::
    "int \<Rightarrow> RateLimiter \<Rightarrow> connection \<Rightarrow> message \<Rightarrow> service_call list \<times> bool" where
  "route_message now rl c m =
     (if msg_type m = ''handshake'' then handleHandshake c m
      else if msg_type m = ''batch'' then handleBatchEvents now rl c m
      else if msg_type m = ''interaction'' \<or> msg_type m = ''event'' then handleEvent c m
      else if msg_type m = ''pong'' then ([], False)
      else if msg_type m = ''command_ack'' then handleCommandAck c m
      else ([], False))"

text \<open>\<^verbatim>\<open>sendThrottleCommand\<close> and the violation log of the auto-throttle branch.\<close>

definition auto_throttle :: "connection \<Rightarrow> key \<Rightarrow> violation_stats \<Rightarrow> service_call list" where
  "auto_throttle c h stats =
     [PublishCommand h SET_LATENCY (Latency (throttleLatency stats)),
      SetSessionMode h downspin (throttleLatency stats),
      LogRateViolation h (conn_ip c),
      IncrementViolations h]"

text \<open>
  \<^verbatim>\<open>handleMessage\<close>. The frame is \<open>None\<close> when \<^verbatim>\<open>JSON.parse\<close> throws. The connection object
  is mutated in place; the model writes it back under its id. A handler that throws has
  made the service calls before the throw, and \<^verbatim>\<open>eventCount\<close> is then not incremented. (The
  frame \<^verbatim>\<open>null\<close>, at which reading \<^verbatim>\<open>message.sessionHash\<close> throws once \<^verbatim>\<open>lastActivity\<close> is set, is
  not among the frames of type \<open>message\<close>.)
\<close>

definition handleMessage :: "int \<Rightarrow> key \<Rightarrow> message option \<Rightarrow> ws_server \<Rightarrow> ws_server" where
  "handleMessage now connectionId data srv =
     (case map_of (connections srv) connectionId of
        None \<Rightarrow> srv
      | Some c \<Rightarrow>
          (case data of
             None \<Rightarrow> srv
           | Some m \<Rightarrow>
               (let c1 = c\<lparr>lastActivity := now\<rparr>;
                    c2 = (if sessionHash c1 = None \<and> msg_sessionHash m \<noteq> None
                          then c1\<lparr>sessionHash := msg_sessionHash m\<rparr> else c1);
                    (rateLimitResult, rl1) =
                       isAllowed now (case msg_sessionHash m of Some h \<Rightarrow> h
                                      | None \<Rightarrow> connectionId) 1 (rateLimiter srv)
                in if \<not> allowed rateLimitResult
                   then (case rateLimitResult of
                           Banned _ \<Rightarrow>
                             (let c3 = ws_close (sendToClient
                                        (Frame_command TERMINATE
                                           (Reason ''Too many requests - temporarily banned'')) c2)
                              in srv\<lparr>connections := map_set connectionId c3 (connections srv),
                                     rateLimiter := rl1\<rparr>)
                         | _ \<Rightarrow>
                             (let stats = (case msg_sessionHash m of
                                             None \<Rightarrow> None
                                           | Some h \<Rightarrow> getViolationStats now h rl1);
                                  made = (case stats of
                                            None \<Rightarrow> []
                                          | Some s \<Rightarrow>
                                              if shouldThrottle s
                                              then auto_throttle c2 (the (msg_sessionHash m)) s
                                              else [])
                              in srv\<lparr>connections := map_set connectionId c2 (connections srv),
                                     rateLimiter := rl1,
                                     service_calls := service_calls srv @ made\<rparr>))
                   else (case route_message now rl1 c2 m of
                           (made, threw) \<Rightarrow>
                             srv\<lparr>connections :=
                                   map_set connectionId
                                     (if threw then c2
                                      else c2\<lparr>eventCount := Suc (eventCount c2)\<rparr>)
                                     (connections srv),
                                 rateLimiter := rl1,
                                 service_calls := service_calls srv @ made\<rparr>))))"

definition handleDisconnect :: "key \<Rightarrow> ws_server \<Rightarrow> ws_server" where
  "handleDisconnect connectionId srv =
     (let made = (case map_of (connections srv) connectionId of
                    None \<Rightarrow> []
                  | Some c \<Rightarrow> (case sessionHash c of
                                 None \<Rightarrow> []
                               | Some h \<Rightarrow> [UpdateSessionStatus h False]))
      in srv\<lparr>connections := filter (\<lambda>(k, c). k \<noteq> connectionId) (connections srv),
             service_calls := service_calls srv @ made\<rparr>)"

text \<open>
  The subscriber of \<^verbatim>\<open>traffic:commands\<close>: the command goes to every connection whose bound
  sessionHash is the target.
\<close>

definition deliver_command :: "key \<Rightarrow> frame \<Rightarrow> ws_server \<Rightarrow> ws_server" where
  "deliver_command h fr srv =
     srv\<lparr>connections :=
           map (\<lambda>(k, c). (k, if sessionHash c = Some h then sendToClient fr c else c))
             (connections srv)\<rparr>"

text \<open>The live connections bound to a sessionHash.\<close>

definition bound_connections :: "key \<Rightarrow> ws_server \<Rightarrow> (key \<times> connection) list" where
  "bound_connections h srv =
     filter (\<lambda>(k, c). sessionHash c = Some h \<and> readyState_open c) (connections srv)"

text \<open>Two sockets, each sending a handshake frame for the same sessionHash.\<close>

definition handshake_frame :: "key \<Rightarrow> message" where
  "handshake_frame h =
     \<lparr>msg_type = ''handshake'', msg_sessionHash = Some h, msg_has_metadata = True,
      msg_events = None, msg_commandId = 0, msg_result = None\<rparr>"

definition two_sockets :: ws_server where
  "two_sockets =
     on_connection 20 ''c-2'' ''10.0.0.2'' (on_connection 10 ''c-1'' ''10.0.0.1'' new_ws_server)"

definition one_handshake :: ws_server where
  "one_handshake = handleMessage 30 ''c-1'' (Some (handshake_frame ''abcd'')) two_sockets"

definition two_handshakes :: ws_server where
  "two_handshakes = handleMessage 40 ''c-2'' (Some (handshake_frame ''abcd'')) one_handshake"

section \<open>The beacon endpoint (server entry point, \<^verbatim>\<open>POST /beacon\<close>)\<close>

text \<open>
  \<^verbatim>\<open>request.body\<close> is the value the framework hands to the handler: a parsed JSON value,
  the string of a text body, or \<^verbatim>\<open>undefined\<close> when there is no body.
\<close>

datatype jsval =
    Undefined
  | Null
  | Boolean bool
  | Number int
  | String string
  | Array "jsval list"
  | Object "(string \<times> jsval) list"

fun truthy :: "jsval \<Rightarrow> bool" where
  "truthy Undefined = False"
| "truthy Null = False"
| "truthy (Boolean b) = b"
| "truthy (Number n) = (n \<noteq> 0)"
| "truthy (String s) = (s \<noteq> [])"
| "truthy (Array xs) = True"
| "truthy (Object kvs) = True"

text \<open>
  \<^verbatim>\<open>v.events\<close>: a TypeError (\<open>None\<close>) on \<^verbatim>\<open>undefined\<close> and \<^verbatim>\<open>null\<close>, \<^verbatim>\<open>undefined\<close> on a value
  without that property; of a repeated key of a parsed object the last one counts.
\<close>

fun get_events :: "jsval \<Rightarrow> jsval option" where
  "get_events Undefined = None"
| "get_events Null = None"
| "get_events (Object kvs) =
     (case map_of (rev kvs) ''events'' of None \<Rightarrow> Some Undefined | Some v \<Rightarrow> Some v)"
| "get_events _ = Some Undefined"

text \<open>\<^verbatim>\<open>for (const event of v)\<close>: arrays and strings are iterable, the rest throws.\<close>

fun iterate :: "jsval \<Rightarrow> jsval list option" where
  "iterate (Array xs) = Some xs"
| "iterate (String s) = Some (map (\<lambda>ch. String [ch]) s)"
| "iterate _ = None"

datatype beacon_effect = Reply nat | LogEventCall jsval | UnhandledRejection

fun is_reply :: "beacon_effect \<Rightarrow> bool" where
  "is_reply (Reply _) = True"
| "is_reply _ = False"

text \<open>
  The event loop as far as the handler uses it: the reply that has been sent, the
  callbacks queued with \<^verbatim>\<open>setImmediate\<close> (each closed over the value of \<^verbatim>\<open>events.events\<close>),
  and what has happened so far, in order.
\<close>

record event_loop =
  reply_sent :: "nat option"
  immediates :: "jsval list"
  effects :: "beacon_effect list"

definition idle_loop :: event_loop where
  "idle_loop = \<lparr>reply_sent = None, immediates = [], effects = []\<rparr>"

definition setImmediate :: "jsval \<Rightarrow> event_loop \<Rightarrow> event_loop" where
  "setImmediate v lp = lp\<lparr>immediates := immediates lp @ [v]\<rparr>"

definition reply_send :: "nat \<Rightarrow> event_loop \<Rightarrow> event_loop" where
  "reply_send code lp =
     (if reply_sent lp = None
      then lp\<lparr>reply_sent := Some code, effects := effects lp @ [Reply code]\<rparr>
      else lp)"

text \<open>The handler: the \<^verbatim>\<open>try\<close> block, and the \<^verbatim>\<open>catch\<close> block for a TypeError in it.\<close>

definition beacon_handler :: "jsval \<Rightarrow> event_loop \<Rightarrow> event_loop" where
  "beacon_handler request_body lp =
     (let events = request_body
      in if \<not> truthy events then reply_send 204 lp
         else (case get_events events of
                 None \<Rightarrow> reply_send 204 lp
               | Some evs \<Rightarrow>
                   if truthy evs then reply_send 204 (setImmediate evs lp)
                   else reply_send 204 lp))"

text \<open>
  The queued callback: \<^verbatim>\<open>await this.clickhouse.logEvent(event)\<close> for each event in turn.
  The sink rejects some events (\<open>rejects\<close>: its validation throws); the first
  rejection, or a value that is not iterable, ends the callback as an unhandled rejection.
\<close>

fun log_events :: "(jsval \<Rightarrow> bool) \<Rightarrow> jsval list \<Rightarrow> beacon_effect list" where
  "log_events rejects [] = []"
| "log_events rejects (e # es) =
     (if rejects e then [UnhandledRejection] else LogEventCall e # log_events rejects es)"

definition run_immediate :: "(jsval \<Rightarrow> bool) \<Rightarrow> jsval \<Rightarrow> beacon_effect list" where
  "run_immediate rejects v =
     (case iterate v of None \<Rightarrow> [UnhandledRejection] | Some es \<Rightarrow> log_events rejects es)"

text \<open>
  What happens to a request before the handler is called. The server registers the global
  rate limit (100 requests per minute and address) and no content-type parser or error
  handler of its own, so the framework's parsers decide: a body over the size limit is
  answered 413, a media type without parser 415, and under \<^verbatim>\<open>application/json\<close> a body that
  is empty or not well-formed JSON is answered 400; otherwise the body becomes a value. The
  parsers are the framework's code; their outcome is part of the request here.
\<close>

datatype body_outcome =
    Payload_too_large
  | Unsupported_media_type
  | Invalid_JSON
  | Parsed jsval

record beacon_req =
  over_rate_limit :: bool
  body_outcome :: body_outcome

definition beacon_route :: "beacon_req \<Rightarrow> event_loop \<Rightarrow> event_loop" where
  "beacon_route req lp =
     (if over_rate_limit req then reply_send 429 lp
      else (case body_outcome req of
              Payload_too_large \<Rightarrow> reply_send 413 lp
            | Unsupported_media_type \<Rightarrow> reply_send 415 lp
            | Invalid_JSON \<Rightarrow> reply_send 400 lp
            | Parsed v \<Rightarrow> beacon_handler v lp))"

text \<open>
  One request: the route runs to its end, then the event loop runs the callbacks that
  were queued.
\<close>

definition beacon_request :: "(jsval \<Rightarrow> bool) \<Rightarrow> beacon_req \<Rightarrow> event_loop" where
  "beacon_request rejects req =
     (let lp = beacon_route req idle_loop
      in lp\<lparr>immediates := [],
            effects := effects lp @ concat (map (run_immediate rejects) (immediates lp))\<rparr>)"

text \<open>A request within the rate limit whose body the framework has made a value of.\<close>

definition handled :: "jsval \<Rightarrow> beacon_req" where
  "handled v = \<lparr>over_rate_limit = False, body_outcome = Parsed v\<rparr>"

text \<open>
  \<^verbatim>\<open>POST /beacon\<close> with \<^verbatim>\<open>Content-Type: application/json\<close>, the media type the client SDK
  gives its beacon, and a body that is not well-formed JSON, such as \<^verbatim>\<open>{"events":[\<close>.
\<close>

definition malformed_json_beacon :: beacon_req where
  "malformed_json_beacon = \<lparr>over_rate_limit = False, body_outcome = Invalid_JSON\<rparr>"

section \<open>Properties of the rate limiter\<close>

subsection \<open>Token conservation\<close>

text \<open>The buckets the server's limiter creates are of a sane configuration.\<close>

lemma server_bucket_wf: "wf_bucket (fst (getBucket now k (new_RateLimiter server_args)))"
  by (simp add: wf_bucket_def getBucket_def new_RateLimiter_def new_TokenBucket_def
        make_options_def server_args_def spread_def js_or_def Let_def)

lemma div_add_le: "0 < (c::int) \<Longrightarrow> a div c + b div c \<le> (a + b) div c"
proof -
  assume c: "0 < c"
  have "(a + b) div c = a div c + b div c + (a mod c + b mod c) div c"
    by (rule div_add1_eq)
  moreover have "0 \<le> (a mod c + b mod c) div c"
    using c by (simp add: pos_imp_zdiv_nonneg_iff)
  ultimately show ?thesis by linarith
qed

lemma refill_same_params:
  "capacity (refill now b) = capacity b" "refillRate (refill now b) = refillRate b"
  "refillInterval (refill now b) = refillInterval b"
  by (simp_all add: refill_def Let_def)

lemma refill_wf: "wf_bucket b \<Longrightarrow> wf_bucket (refill now b)"
  by (auto simp: wf_bucket_def refill_def Let_def)

lemma refill_fresh:
  "0 < refillInterval b \<Longrightarrow> (now - lastRefill (refill now b)) div refillInterval b \<le> 0"
  by (auto simp: refill_def Let_def)

lemma refill_potential:
  assumes wf: "wf_bucket b" and t: "t0 \<le> now" "now \<le> tend"
  shows "potential t0 tend (refill now b) \<le> potential t0 tend b"
proof (cases "(now - lastRefill b) div refillInterval b > 0")
  case False
  then show ?thesis using wf by (simp add: refill_def Let_def wf_bucket_def)
next
  case True
  define I where "I = refillInterval b"
  define R where "R = refillRate b"
  define k where "k = (now - lastRefill b) div I"
  define k0 where "k0 = max 0 ((t0 - lastRefill b) div I)"
  define K where "K = (tend - lastRefill b) div I"
  define K' where "K' = (tend - now) div I"
  have I: "0 < I" and R: "0 \<le> R" using wf by (auto simp: wf_bucket_def I_def R_def)
  have kpos: "0 < k" using True by (simp add: k_def I_def)
  have k0k: "k0 \<le> k"
    using t(1) kpos I by (auto simp: k0_def k_def intro!: zdiv_mono1)
  have "k + K' \<le> (now - lastRefill b + (tend - now)) div I"
    unfolding k_def K'_def using I by (rule div_add_le)
  then have kK: "k + K' \<le> K" by (simp add: K_def)
  have K'0: "0 \<le> K'" using t(2) I by (simp add: K'_def pos_imp_zdiv_nonneg_iff)
  have k00: "0 \<le> k0" by (simp add: k0_def)
  have m1: "k0 * R \<le> k * R" using k0k R by (rule mult_right_mono)
  have m2: "(k + K') * R \<le> K * R" using kK R by (rule mult_right_mono)
  have "(t0 - now) div I \<le> 0" using t(1) I by (simp add: div_nonpos_pos_le0)
  then have z: "max 0 ((t0 - now) div refillInterval b) = 0" by (simp add: I_def)
  have lhs: "potential t0 tend (refill now b) = min (capacity b) (tokens b + k * R) + K' * R"
    using True z I
    by (simp add: potential_def refill_def Let_def k_def K'_def I_def R_def)
  have rhs: "potential t0 tend b = min (capacity b) (tokens b + k0 * R) + (K - k0) * R"
    by (simp add: potential_def Let_def k0_def K_def I_def R_def)
  have "min (capacity b) (tokens b + k * R) \<le> min (capacity b) (tokens b + k0 * R) + (k - k0) * R"
    using m1 by (simp add: algebra_simps min_def)
  moreover have "(k - k0) * R + K' * R \<le> (K - k0) * R"
    using m2 by (simp add: algebra_simps)
  ultimately show ?thesis unfolding lhs rhs by linarith
qed

lemma refill_inv: "bucket_inv tend b \<Longrightarrow> now \<le> tend \<Longrightarrow> bucket_inv tend (refill now b)"
  by (auto simp: bucket_inv_def wf_bucket_def refill_def Let_def)

lemma refill_again:
  "0 < refillInterval b \<Longrightarrow> refill now ((refill now b)\<lparr>tokens := x\<rparr>) = (refill now b)\<lparr>tokens := x\<rparr>"
  by (auto simp: refill_def Let_def)

lemma potential_fresh:
  assumes "wf_bucket b" and "(now - lastRefill b) div refillInterval b \<le> 0" and "t0 \<le> now"
  shows "potential t0 tend b = tokens b + ((tend - lastRefill b) div refillInterval b) * refillRate b"
proof -
  have "(t0 - lastRefill b) div refillInterval b \<le> (now - lastRefill b) div refillInterval b"
    using assms by (auto simp: wf_bucket_def intro!: zdiv_mono1)
  then have "max 0 ((t0 - lastRefill b) div refillInterval b) = 0" using assms(2) by simp
  then show ?thesis using assms(1) by (simp add: potential_def Let_def wf_bucket_def)
qed

lemma consume_step_potential:
  assumes inv: "bucket_inv tend b" and t: "t0 \<le> now" "now \<le> tend"
  shows "bucket_inv tend (snd (consume_step now b)) \<and>
         potential t0 tend (snd (consume_step now b)) + (if fst (consume_step now b) then 1 else 0)
           \<le> potential t0 tend b"
proof -
  define b1 where "b1 = refill now b"
  have wf: "wf_bucket b" using inv by (simp add: bucket_inv_def)
  have I: "0 < refillInterval b" using wf by (simp add: wf_bucket_def)
  have inv1: "bucket_inv tend b1" unfolding b1_def using inv t(2) by (rule refill_inv)
  have wf1: "wf_bucket b1" using inv1 by (simp add: bucket_inv_def)
  have fresh: "(now - lastRefill b1) div refillInterval b1 \<le> 0"
    unfolding b1_def using refill_fresh [OF I, of now] by (simp add: refill_same_params)
  have p1: "potential t0 tend b1 \<le> potential t0 tend b"
    unfolding b1_def using wf t by (rule refill_potential)
  have pf: "potential t0 tend b1 = tokens b1 + ((tend - lastRefill b1) div refillInterval b1) * refillRate b1"
    using wf1 fresh t(1) by (rule potential_fresh)
  show ?thesis
  proof (cases "tokens b1 \<ge> 1")
    case False
    have cs: "consume_step now b = (False, b1)"
      using False I
      by (simp add: consume_step_def tryConsume_def getTokens_def Let_def b1_def [symmetric])
         (metis b1_def refill_again TokenBucket.surjective TokenBucket.update_convs(2) I)
    show ?thesis using cs inv1 p1 by simp
  next
    case True
    define b2 where "b2 = b1\<lparr>tokens := tokens b1 - 1\<rparr>"
    have r2: "refill now b2 = b2" unfolding b2_def b1_def using I by (rule refill_again)
    have cs: "consume_step now b = (True, b2)"
      using True r2
      by (simp add: consume_step_def tryConsume_def getTokens_def Let_def b1_def [symmetric] b2_def [symmetric])
    have wf2: "wf_bucket b2" using wf1 True by (simp add: wf_bucket_def b2_def)
    have inv2: "bucket_inv tend b2" using inv1 wf2 by (simp add: bucket_inv_def b2_def)
    have fresh2: "(now - lastRefill b2) div refillInterval b2 \<le> 0" using fresh by (simp add: b2_def)
    have pf2: "potential t0 tend b2 = tokens b2 + ((tend - lastRefill b2) div refillInterval b2) * refillRate b2"
      using wf2 fresh2 t(1) by (rule potential_fresh)
    have "potential t0 tend b2 + 1 = potential t0 tend b1"
      unfolding pf pf2 by (simp add: b2_def)
    then show ?thesis using cs inv2 p1 by simp
  qed
qed

lemma isAllowed_other_bucket:
  "k' \<noteq> k \<Longrightarrow> buckets (snd (isAllowed now k' c rl)) k = buckets rl k"
  by (auto simp: isAllowed_def isBanned_def getBucket_def store_bucket_def recordViolation_def
        ban_def Let_def split: option.splits if_splits prod.splits)

lemma isAllowed_own_bucket:
  assumes "buckets rl k = Some b"
  shows "(\<not> allowed (fst (isAllowed now k 1 rl)) \<and> buckets (snd (isAllowed now k 1 rl)) k = Some b) \<or>
         (allowed (fst (isAllowed now k 1 rl)) = fst (consume_step now b) \<and>
          buckets (snd (isAllowed now k 1 rl)) k = Some (snd (consume_step now b)))"
  using assms
  by (auto simp: isAllowed_def isBanned_def getBucket_def store_bucket_def recordViolation_def
        ban_def consume_step_def Let_def split: option.splits if_splits prod.splits)

lemma isAllowed_potential:
  assumes bk: "buckets rl k = Some b" and inv: "bucket_inv tend b"
    and t: "t0 \<le> now" "now \<le> tend"
  shows "\<exists>b'. buckets (snd (isAllowed now k' 1 rl)) k = Some b' \<and> bucket_inv tend b' \<and>
           potential t0 tend b' + (if k' = k \<and> allowed (fst (isAllowed now k' 1 rl)) then 1 else 0)
             \<le> potential t0 tend b"
proof (cases "k' = k")
  case False
  then show ?thesis using bk inv by (simp add: isAllowed_other_bucket)
next
  case True
  from isAllowed_own_bucket [OF bk, of now] consume_step_potential [OF inv t]
  show ?thesis unfolding True using inv by auto
qed

lemma potential_nonneg:
  assumes "bucket_inv tend b" and "t0 \<le> tend"
  shows "0 \<le> potential t0 tend b"
proof -
  define I where "I = refillInterval b"
  define R where "R = refillRate b"
  define k0 where "k0 = max 0 ((t0 - lastRefill b) div I)"
  define K where "K = (tend - lastRefill b) div I"
  have I: "0 < I" and R: "0 \<le> R" and tk: "0 \<le> tokens b" "tokens b \<le> capacity b"
    and lr: "lastRefill b \<le> tend"
    using assms(1) by (auto simp: bucket_inv_def wf_bucket_def I_def R_def)
  have "0 \<le> K" using lr I by (simp add: K_def pos_imp_zdiv_nonneg_iff)
  moreover have "(t0 - lastRefill b) div I \<le> K"
    unfolding K_def using assms(2) I by (auto intro!: zdiv_mono1)
  ultimately have "k0 \<le> K" by (simp add: k0_def)
  then have a: "0 \<le> (K - k0) * R" using R by simp
  have "0 \<le> k0" by (simp add: k0_def)
  then have "0 \<le> k0 * R" using R by simp
  then have b: "0 \<le> min (capacity b) (tokens b + k0 * R)" using tk by simp
  have "potential t0 tend b = min (capacity b) (tokens b + k0 * R) + (K - k0) * R"
    by (simp add: potential_def Let_def k0_def K_def I_def R_def)
  then show ?thesis using a b by linarith
qed

lemma admitted_le_potential:
  assumes "buckets rl k = Some b" and "bucket_inv tend b" and "t0 \<le> tend"
    and "\<forall>(k', t) \<in> set calls. t0 \<le> t \<and> t \<le> tend"
  shows "int (admitted k calls rl) \<le> potential t0 tend b"
  using assms
proof (induction calls arbitrary: rl b)
  case Nil
  then show ?case using potential_nonneg by simp
next
  case (Cons c calls)
  obtain k' now where c: "c = (k', now)" by (cases c)
  obtain r rl' where st: "isAllowed now k' 1 rl = (r, rl')" by (cases "isAllowed now k' 1 rl")
  have t: "t0 \<le> now" "now \<le> tend" using Cons.prems(4) c by auto
  from isAllowed_potential [OF Cons.prems(1,2) t, of k'] st
  obtain b' where b': "buckets rl' k = Some b'" "bucket_inv tend b'"
    "potential t0 tend b' + (if k' = k \<and> allowed r then 1 else 0) \<le> potential t0 tend b"
    by auto
  have rest: "\<forall>(k', t) \<in> set calls. t0 \<le> t \<and> t \<le> tend" using Cons.prems(4) by simp
  have "int (admitted k calls rl') \<le> potential t0 tend b'"
    using Cons.IH [OF b'(1,2) Cons.prems(3) rest] .
  then show ?case using b'(3) c st by (auto split: if_splits)
qed

lemma potential_start:
  assumes wf: "wf_bucket b" and lr: "lastRefill b \<le> t0" and dt: "0 \<le> dt"
  shows "potential t0 (t0 + dt) b \<le> tokens (refill t0 b) - ((- dt) div refillInterval b) * refillRate b"
proof -
  define I where "I = refillInterval b"
  define R where "R = refillRate b"
  define a where "a = (t0 - lastRefill b) div I"
  define K where "K = (t0 + dt - lastRefill b) div I"
  have I: "0 < I" and R: "0 \<le> R" and tk: "0 \<le> tokens b" "tokens b \<le> capacity b"
    using wf by (auto simp: wf_bucket_def I_def R_def)
  have a0: "0 \<le> a" using lr I by (simp add: a_def pos_imp_zdiv_nonneg_iff)
  have "(t0 + dt - lastRefill b) div I + (- dt) div I \<le> (t0 + dt - lastRefill b + (- dt)) div I"
    using I by (rule div_add_le)
  then have "K - a \<le> - ((- dt) div I)" by (simp add: K_def a_def)
  then have m: "(K - a) * R \<le> - ((- dt) div I) * R" using R by (rule mult_right_mono)
  have p: "potential t0 (t0 + dt) b = min (capacity b) (tokens b + a * R) + (K - a) * R"
    using a0 by (simp add: potential_def Let_def a_def K_def I_def R_def max_def)
  have r: "tokens (refill t0 b) = min (capacity b) (tokens b + a * R)"
    using a0 tk I by (auto simp: refill_def Let_def a_def I_def R_def)
  show ?thesis unfolding p r using m by (simp add: I_def R_def)
qed

text \<open>
  Claim C3. For a bucket of a sane configuration last refilled no later than \<open>t0\<close>, and any
  cost-1 \<^verbatim>\<open>isAllowed\<close> calls whose clock readings lie in the interval from \<open>t0\<close> to
  \<open>t0 + dt\<close> (calls on other keys may be interleaved), the number of calls on the bucket's
  key that are admitted is at most the token count at \<open>t0\<close> (what \<^verbatim>\<open>getTokens\<close> reports
  there) plus \<open>\<lceil>dt / refillInterval\<rceil> * refillRate\<close>. A refill observation leaves
  \<open>tokens = min(capacity, tokens_prev + \<lfloor>(now - lastRefill) / interval\<rfloor> * refillRate)\<close>,
  and the token count stays between 0 and the capacity.
\<close>

theorem token_conservation:
  assumes wf: "wf_bucket b" and bk: "buckets rl k = Some b" and lr: "lastRefill b \<le> t0"
    and dt: "0 \<le> dt" and win: "list_all (\<lambda>(k', t). t0 \<le> t \<and> t \<le> t0 + dt) calls"
  shows "int (admitted k calls rl)
           \<le> fst (getTokens t0 b)
              + \<lceil>real_of_int dt / real_of_int (refillInterval b)\<rceil> * refillRate b
         \<and> tokens (refill t0 b)
             = min (capacity b)
                 (tokens b
                  + \<lfloor>real_of_int (t0 - lastRefill b) / real_of_int (refillInterval b)\<rfloor>
                    * refillRate b)
         \<and> 0 \<le> tokens (refill t0 b) \<and> tokens (refill t0 b) \<le> capacity b"
proof -
  have I: "0 < refillInterval b" and tk: "0 \<le> tokens b" "tokens b \<le> capacity b"
    and R: "0 \<le> refillRate b"
    using wf by (auto simp: wf_bucket_def)
  have inv: "bucket_inv (t0 + dt) b" using wf lr dt by (simp add: bucket_inv_def)
  have win': "\<forall>(k', t) \<in> set calls. t0 \<le> t \<and> t \<le> t0 + dt"
    using win by (simp add: list_all_iff)
  have "int (admitted k calls rl) \<le> potential t0 (t0 + dt) b"
    using bk inv _ win' by (rule admitted_le_potential) (use dt in simp)
  also have "\<dots> \<le> tokens (refill t0 b) - ((- dt) div refillInterval b) * refillRate b"
    using wf lr dt by (rule potential_start)
  finally have p: "int (admitted k calls rl)
      \<le> tokens (refill t0 b) - ((- dt) div refillInterval b) * refillRate b" .
  have ce: "\<lceil>real_of_int dt / real_of_int (refillInterval b)\<rceil> = - ((- dt) div refillInterval b)"
    by (rule ceiling_divide_eq_div)
  have a: "int (admitted k calls rl)
      \<le> fst (getTokens t0 b) + \<lceil>real_of_int dt / real_of_int (refillInterval b)\<rceil> * refillRate b"
    unfolding ce using p by (simp add: getTokens_def Let_def)
  have k0: "0 \<le> (t0 - lastRefill b) div refillInterval b"
    using lr I by (simp add: pos_imp_zdiv_nonneg_iff)
  have fl: "\<lfloor>real_of_int (t0 - lastRefill b) / real_of_int (refillInterval b)\<rfloor>
      = (t0 - lastRefill b) div refillInterval b"
    by (rule floor_divide_of_int_eq)
  have b: "tokens (refill t0 b)
      = min (capacity b) (tokens b + ((t0 - lastRefill b) div refillInterval b) * refillRate b)"
    using k0 tk I by (auto simp: refill_def Let_def)
  have c: "0 \<le> tokens (refill t0 b) \<and> tokens (refill t0 b) \<le> capacity b"
    using refill_wf [OF wf, of t0] by (simp add: wf_bucket_def refill_same_params)
  show ?thesis using a b c unfolding fl by blast
qed

text \<open>The instance: three of four calls within one second are admitted, the bound is 7.\<close>

theorem token_conservation_witness:
  "wf_bucket demo_bucket \<and> buckets demo_limiter ''s'' = Some demo_bucket
   \<and> lastRefill demo_bucket \<le> 100 \<and> (0::int) \<le> 1000
   \<and> list_all (\<lambda>(k', t). 100 \<le> t \<and> t \<le> 100 + 1000)
        [(''s'', 200), (''s'', 300), (''s'', 400), (''s'', 1100::int)]
   \<and> admitted ''s'' [(''s'', 200), (''s'', 300), (''s'', 400), (''s'', 1100)] demo_limiter = 3
   \<and> int (admitted ''s'' [(''s'', 200), (''s'', 300), (''s'', 400), (''s'', 1100)] demo_limiter)
       \<le> fst (getTokens 100 demo_bucket)
          + \<lceil>real_of_int 1000 / real_of_int (refillInterval demo_bucket)\<rceil>
            * refillRate demo_bucket
   \<and> tokens (refill 100 demo_bucket) = 2"
proof -
  have h1: "wf_bucket demo_bucket" by (simp add: wf_bucket_def demo_bucket_def)
  have h2: "buckets demo_limiter ''s'' = Some demo_bucket" by (simp add: demo_limiter_def)
  have h3: "lastRefill demo_bucket \<le> 100" by (simp add: demo_bucket_def)
  have h4: "(0::int) \<le> 1000" by simp
  have h5: "list_all (\<lambda>(k', t). 100 \<le> t \<and> t \<le> 100 + 1000)
        [(''s'', 200), (''s'', 300), (''s'', 400), (''s'', 1100::int)]" by simp
  have n: "admitted ''s'' [(''s'', 200), (''s'', 300), (''s'', 400), (''s'', 1100)] demo_limiter = 3"
    by (simp add: demo_limiter_def demo_bucket_def new_RateLimiter_def isAllowed_def isBanned_def
          getBucket_def tryConsume_def getTokens_def refill_def store_bucket_def recordViolation_def
          ban_def make_options_def server_args_def spread_def js_or_def Let_def)
  have r: "tokens (refill 100 demo_bucket) = 2" by (simp add: refill_def demo_bucket_def Let_def)
  from token_conservation [OF h1 h2 h3 h4 h5] h1 h2 h3 h5 n r show ?thesis by simp
qed

subsection \<open>Rounding to a double\<close>

lemma bitlen_powi:
  assumes "0 < (a::int)"
  shows "(2::rat) powi (bitlen a - 1) \<le> of_int a" and "of_int a < (2::rat) powi (bitlen a)"
proof -
  from bitlen_bounds [OF assms] have b: "2 ^ nat (bitlen a - 1) \<le> a" "a < 2 ^ nat (bitlen a)"
    by auto
  have ge: "1 \<le> bitlen a" using assms bitlen_eq_zero_iff [of a] bitlen_nonneg [of a] by linarith
  have "(2::rat) powi (bitlen a - 1) = 2 ^ nat (bitlen a - 1)"
    using ge by (simp add: power_int_nonneg_exp)
  also have "\<dots> = of_int (2 ^ nat (bitlen a - 1))" by simp
  also have "\<dots> \<le> of_int a" using b(1) by (simp only: of_int_le_iff)
  finally show "(2::rat) powi (bitlen a - 1) \<le> of_int a" .
  have "(of_int a :: rat) < of_int (2 ^ nat (bitlen a))" using b(2) by (simp only: of_int_less_iff)
  also have "\<dots> = 2 ^ nat (bitlen a)" by simp
  also have "\<dots> = (2::rat) powi (bitlen a)" using ge by (simp add: power_int_nonneg_exp)
  finally show "of_int a < (2::rat) powi (bitlen a)" .
qed

lemma floor_log2_bounds:
  assumes "0 < x"
  shows "2 powi (floor_log2 x) \<le> x" and "x < 2 powi (floor_log2 x + 1)"
proof -
  obtain a b where q: "quotient_of x = (a, b)" by (cases "quotient_of x")
  have b: "0 < b" using q by (rule quotient_of_denom_pos)
  have x: "x = of_int a / of_int b" using q by (rule quotient_of_div)
  have a: "0 < a" using assms b unfolding x by (simp add: zero_less_divide_iff)
  define d where "d = bitlen a - bitlen b"
  note ba = bitlen_powi [OF a] and bb = bitlen_powi [OF b]
  have bpos: "(0::rat) < of_int b" using b by simp
  have up: "x < 2 powi (d + 1)"
  proof -
    have "of_int a < (2::rat) powi (bitlen a)" by (rule ba(2))
    also have "\<dots> = 2 powi (d + 1) * 2 powi (bitlen b - 1)"
      by (simp add: d_def power_int_add [symmetric])
    also have "\<dots> \<le> 2 powi (d + 1) * of_int b"
      using bb(1) by (intro mult_left_mono) auto
    finally show ?thesis unfolding x using bpos by (simp add: pos_divide_less_eq)
  qed
  have lo: "2 powi (d - 1) < x"
  proof -
    have "2 powi (d - 1) * of_int b < (2::rat) powi (d - 1) * 2 powi (bitlen b)"
      using bb(2) by (intro mult_strict_left_mono) auto
    also have "\<dots> = 2 powi (bitlen a - 1)"
      by (simp add: d_def power_int_add [symmetric])
    also have "\<dots> \<le> of_int a" by (rule ba(1))
    finally show ?thesis unfolding x using bpos by (simp add: pos_less_divide_eq)
  qed
  have fl: "floor_log2 x = (if 2 powi d \<le> x then d else d - 1)"
    by (simp add: floor_log2_def q d_def Let_def)
  show "2 powi (floor_log2 x) \<le> x" using lo unfolding fl by auto
  show "x < 2 powi (floor_log2 x + 1)" using up unfolding fl by auto
qed

lemma round_half_even_error: "\<bar>of_int (round_half_even x) - x\<bar> \<le> 1 / 2"
proof -
  have "of_int \<lfloor>x\<rfloor> \<le> x" "x < of_int \<lfloor>x\<rfloor> + 1" by linarith+
  then show ?thesis by (auto simp: round_half_even_def Let_def)
qed

lemma round_half_even_int: "round_half_even (of_int k) = k"
  by (simp add: round_half_even_def Let_def)

lemma powi2_less_D: "(2::rat) powi m < 2 powi n \<Longrightarrow> m < n"
proof (rule ccontr)
  assume a: "(2::rat) powi m < 2 powi n" and "\<not> m < n"
  then have "n \<le> m" by simp
  then have "(2::rat) powi n \<le> 2 powi m" by (rule power_int_increasing) simp
  with a show False by simp
qed

lemma to_double_normal:
  assumes lo: "2 powi (- 1022) \<le> x" and hi: "x < 2 powi 1023"
  shows "\<exists>y. to_double x = Fin y \<and> \<bar>y - x\<bar> \<le> x / 2 ^ 53"
proof -
  have xpos: "0 < x" using lo zero_less_power_int [of "2::rat" "- 1022"] by linarith
  define fl where "fl = floor_log2 x"
  note b = floor_log2_bounds [OF xpos, folded fl_def]
  have "(2::rat) powi (- 1022) < 2 powi (fl + 1)" using lo b(2) by linarith
  then have "- 1022 < fl + 1" by (rule powi2_less_D)
  then have flge: "- 1022 \<le> fl" by simp
  define e where "e = fl - 52"
  have e: "max (- 1074) (floor_log2 \<bar>x\<bar> - 52) = e"
    using flge xpos by (simp add: e_def fl_def)
  define m where "m = round_half_even (x / 2 powi e)"
  define v where "v = of_int m * (2::rat) powi e"
  have pe: "(0::rat) < 2 powi e" by simp
  have "\<bar>of_int m - x / 2 powi e\<bar> \<le> 1 / 2" unfolding m_def by (rule round_half_even_error)
  then have "\<bar>of_int m - x / 2 powi e\<bar> * 2 powi e \<le> 1 / 2 * 2 powi e"
    using pe by (intro mult_right_mono) auto
  moreover have "\<bar>of_int m - x / 2 powi e\<bar> * 2 powi e = \<bar>v - x\<bar>"
  proof -
    have "\<bar>of_int m - x / 2 powi e\<bar> * 2 powi e = \<bar>(of_int m - x / 2 powi e) * 2 powi e\<bar>"
      by (simp add: abs_mult)
    also have "(of_int m - x / 2 powi e) * 2 powi e = v - x"
      by (simp add: v_def left_diff_distrib)
    finally show ?thesis .
  qed
  ultimately have err: "\<bar>v - x\<bar> \<le> 2 powi e / 2" by simp
  have "(2::rat) powi e = 2 powi fl / 2 ^ 52"
    by (simp add: e_def power_int_diff)
  then have pe2: "(2::rat) powi e / 2 = 2 powi fl / 2 ^ 53" by simp
  have "(2::rat) powi fl / 2 ^ 53 \<le> x / 2 ^ 53" using b(1) by (simp add: divide_right_mono)
  then have err2: "\<bar>v - x\<bar> \<le> x / 2 ^ 53" using err pe2 by simp
  have "v \<le> x + x / 2 ^ 53" using err2 by linarith
  also have "\<dots> \<le> 2 * x" using xpos by (simp add: field_simps)
  also have "\<dots> < 2 * 2 powi 1023" using hi by simp
  also have "\<dots> = (2::rat) powi 1024" by (simp add: power_int_add_1' [of 2 1023, simplified])
  finally have vlt: "\<not> (2 powi 1024 \<le> v)" by simp
  have "to_double x = Fin v"
    using xpos vlt e by (simp add: to_double_def Let_def m_def v_def)
  then show ?thesis using err2 by blast
qed

lemma to_double_int:
  assumes "0 \<le> n" and "n < 2 ^ 53"
  shows "to_double (of_int n) = Fin (of_int n)"
proof (cases "n = 0")
  case True
  then show ?thesis by (simp add: to_double_def)
next
  case False
  define x :: rat where "x = of_int n"
  have n1: "1 \<le> n" using assms False by simp
  have xpos: "0 < x" and x1: "1 \<le> x" using n1 by (simp_all add: x_def)
  have xlt: "x < 2 ^ 53" using assms(2) unfolding x_def
    by (metis of_int_less_iff of_int_numeral of_int_power)
  define fl where "fl = floor_log2 x"
  note b = floor_log2_bounds [OF xpos, folded fl_def]
  have "(2::rat) powi fl < 2 powi 53" using b(1) xlt by simp
  then have "fl < 53" by (rule powi2_less_D)
  then have flle: "fl \<le> 52" by simp
  have "(2::rat) powi 0 < 2 powi (fl + 1)" using b(2) x1 by simp
  then have "0 < fl + 1" by (rule powi2_less_D)
  then have flge: "0 \<le> fl" by simp
  define k where "k = nat (52 - fl)"
  have e: "max (- 1074) (floor_log2 \<bar>x\<bar> - 52) = - int k"
    using flge flle xpos by (simp add: k_def fl_def)
  have q: "x / 2 powi (- int k) = of_int (n * 2 ^ k)"
    by (simp add: power_int_minus x_def divide_inverse)
  have m: "round_half_even (x / 2 powi (- int k)) = n * 2 ^ k"
    unfolding q by (rule round_half_even_int)
  have v: "of_int (n * 2 ^ k) * (2::rat) powi (- int k) = x"
    by (simp add: power_int_minus x_def)
  have "x < 2 powi 1024" using xlt by (simp add: order_less_trans [OF _ power_strict_increasing [of 53 1024 "2::rat"]])
  then have "to_double x = Fin x"
    using xpos e m v by (simp add: to_double_def Let_def)
  then show ?thesis by (simp add: x_def)
qed

lemma floor_log2_eq:
  assumes "0 < x" and "2 powi f \<le> x" and "x < 2 powi (f + 1)"
  shows "floor_log2 x = f"
proof -
  note b = floor_log2_bounds [OF assms(1)]
  have "(2::rat) powi (floor_log2 x) < 2 powi (f + 1)" using b(1) assms(3) by simp
  then have "floor_log2 x < f + 1" by (rule powi2_less_D)
  moreover have "(2::rat) powi f < 2 powi (floor_log2 x + 1)" using b(2) assms(2) by simp
  then have "f < floor_log2 x + 1" by (rule powi2_less_D)
  ultimately show ?thesis by simp
qed

lemma to_double_eq:
  assumes "0 < x" and "2 powi f \<le> x" and "x < 2 powi (f + 1)" and "- 1022 \<le> f" and "f \<le> 1022"
    and "round_half_even (x / 2 powi (f - 52)) = m"
  shows "to_double x = Fin (of_int m * 2 powi (f - 52))"
proof -
  have fl: "floor_log2 \<bar>x\<bar> = f" using assms(1-3) by (simp add: floor_log2_eq)
  have e: "max (- 1074) (f - 52) = f - 52" using assms(4) by simp
  define v where "v = of_int m * (2::rat) powi (f - 52)"
  have "\<bar>of_int m - x / 2 powi (f - 52)\<bar> \<le> 1 / 2"
    using round_half_even_error [of "x / 2 powi (f - 52)"] assms(6) by simp
  then have "of_int m \<le> x / 2 powi (f - 52) + 1 / 2" by linarith
  then have "of_int m * 2 powi (f - 52) \<le> (x / 2 powi (f - 52) + 1 / 2) * (2::rat) powi (f - 52)"
    by (intro mult_right_mono) auto
  also have "\<dots> = x + 2 powi (f - 52) / 2" by (simp add: distrib_right)
  also have "2 powi (f - 52) / 2 \<le> (2::rat) powi f"
  proof -
    have "(2::rat) powi (f - 52) \<le> 2 powi f" by (rule power_int_increasing) simp_all
    moreover have "(0::rat) < 2 powi (f - 52)" by simp
    ultimately show ?thesis by linarith
  qed
  also have "x + 2 powi f < 2 powi (f + 1) + 2 powi f" using assms(3) by simp
  also have "\<dots> \<le> 2 powi (f + 1) + 2 powi (f + 1)"
    by (simp add: power_int_increasing)
  also have "\<dots> = (2::rat) powi (f + 2)"
    using power_int_add [of "2::rat" "f + 1" 1] by (simp add: ac_simps)
  also have "\<dots> \<le> 2 powi 1024" using assms(5) by (intro power_int_increasing) simp_all
  finally have "\<not> (2 powi 1024 \<le> v)" by (simp add: v_def)
  then show ?thesis using assms(1,6) fl e by (simp add: to_double_def Let_def v_def)
qed

lemma floor_numeral_div: "\<lfloor>numeral a / numeral b :: rat\<rfloor> = numeral a div numeral b"
  using floor_divide_of_int_eq [of "numeral a" "numeral b", where ?'a = rat] by simp

lemma num_exact: "0 \<le> n \<Longrightarrow> n < 2 ^ 53 \<Longrightarrow> num n = Fin (rat_of_int n)"
  unfolding num_def by (rule to_double_int)

subsection \<open>Violation statistics\<close>

lemmas round_numeral = round_half_even_def Let_def power_int_minus floor_numeral_div

lemma events_per_second_2: "js_multiply (js_divide (num 1) (num 500)) (num 1000) = Fin 2"
proof -
  have d1: "to_double (1 / 500) = Fin (4611686018427388 / 2 ^ 61)"
    using to_double_eq [of "1 / 500" "- 9" 4611686018427388] by (simp add: round_numeral)
  have d2: "to_double (4611686018427388 / 2 ^ 61 * 1000) = Fin 2"
    using to_double_eq [of "4611686018427388 / 2 ^ 61 * 1000" 1 4503599627370496]
    by (simp add: round_numeral)
  show ?thesis
    using num_exact [of 1] num_exact [of 500] num_exact [of 1000] d1 d2 by simp
qed

lemma events_per_second_rounded:
  "js_multiply (js_divide (num 161) (num 40)) (num 1000) = Fin (4025 + 1 / 2 ^ 41)"
proof -
  have d1: "to_double (161 / 40) = Fin (4531747125041562 / 2 ^ 50)"
    using to_double_eq [of "161 / 40" 2 4531747125041562] by (simp add: round_numeral)
  have d2: "to_double (4531747125041562 / 2 ^ 50 * 1000) = Fin (8851068603596801 / 2 ^ 41)"
    using to_double_eq [of "4531747125041562 / 2 ^ 50 * 1000" 11 8851068603596801]
    by (simp add: round_numeral)
  show ?thesis
    using num_exact [of 161] num_exact [of 40] num_exact [of 1000] d1 d2 by simp
qed

lemma num_5: "num 5 = Fin 5"
  using num_exact [of 5] by simp

text \<open>
  The two roundings are visible in the result: 161 violations in 40 ms are exactly 4025
  events per second, the code computes \<open>4025 + 2\<^sup>-\<^sup>4\<^sup>1\<close> and asks for throttling at a
  threshold of 4025.
\<close>

lemma stats_rounded_above_threshold:
  "getViolationStats 40 ''s'' demo_rounding =
     Some \<lparr>vs_count = 161, eventsPerSecond = Fin (4025 + 1 / 2 ^ 41), shouldThrottle = True,
           throttleLatency = 2000\<rparr>"
  using num_exact [of 4025]
  by (simp add: getViolationStats_def demo_rounding_def new_RateLimiter_def
        events_per_second_rounded make_options_def server_args_def spread_def js_or_def Let_def)

lemma events_per_second_infinite: "js_multiply (js_divide (num 1) (num 0)) (num 1000) = PosInfinity"
  using num_exact [of 1] num_exact [of 0] num_exact [of 1000] by simp

text \<open>
  Against claim C6 as stated. Half a second after a single violation the code reports 2
  events per second, where the specification's formula gives 1/500; queried in the
  millisecond of the first violation the code divides by a duration of 0, reports
  \<^verbatim>\<open>Infinity\<close> and asks for throttling, where the specification's formula gives 1 and no
  throttling.
\<close>

theorem violation_stats_counterexample:
  "map_option eventsPerSecond (getViolationStats 1500 ''s'' demo_violated) = Some (Fin 2)
   \<and> Fin 2 \<noteq> Fin (spec_eventsPerSecond 1 1500 1000)
   \<and> map_option eventsPerSecond (getViolationStats 1000 ''s'' demo_violated) = Some PosInfinity
   \<and> map_option shouldThrottle (getViolationStats 1000 ''s'' demo_violated) = Some True
   \<and> \<not> (spec_eventsPerSecond 1 1000 1000 > 5)"
  by (simp add: getViolationStats_def demo_violated_def new_RateLimiter_def
        events_per_second_2 events_per_second_infinite num_5
        spec_eventsPerSecond_def make_options_def server_args_def spread_def js_or_def Let_def)

text \<open>
  Claim C6, amended. For a key with a recorded violation, queried later than the
  millisecond of its first violation (count and duration below \<open>2^53\<close>, as every count and
  every difference of clock readings is), \<^verbatim>\<open>getViolationStats\<close> returns the count, the rate
  \<^verbatim>\<open>(count / duration) * 1000\<close> as double arithmetic computes it, whether that double exceeds
  \<open>maxEventsPerSecond\<close>, and the configured throttle latency. The rate is within a relative
  error of \<open>2^-51\<close> of \<open>count * 1000 / (now - firstViolation)\<close>: events per second, from
  a duration in milliseconds that is not clamped.
\<close>

theorem violation_stats_formula:
  assumes v: "violations rl k = Some v"
    and c: "0 < count v" "count v < 2 ^ 53"
    and d: "firstViolation v < now" "now - firstViolation v < 2 ^ 53"
    and mx: "0 \<le> o_maxEventsPerSecond (options rl)" "o_maxEventsPerSecond (options rl) < 2 ^ 53"
  shows "\<exists>eps. getViolationStats now k rl =
             Some \<lparr>vs_count = count v, eventsPerSecond = Fin eps,
                   shouldThrottle = (rat_of_int (o_maxEventsPerSecond (options rl)) < eps),
                   throttleLatency = o_throttleLatency (options rl)\<rparr>
           \<and> Fin eps = js_multiply (js_divide (num (count v)) (num (now - firstViolation v)))
                             (num 1000)
           \<and> \<bar>eps - rat_of_int (count v) * 1000 / rat_of_int (now - firstViolation v)\<bar>
               \<le> rat_of_int (count v) * 1000 / rat_of_int (now - firstViolation v) / 2 ^ 51"
proof -
  define C :: rat where "C = rat_of_int (count v)"
  define D :: rat where "D = rat_of_int (now - firstViolation v)"
  define q0 where "q0 = C / D"
  have C: "1 \<le> C" "C < 2 ^ 53"
    using c unfolding C_def
    by (simp, metis of_int_less_iff of_int_numeral of_int_power)
  have D: "1 \<le> D" "D < 2 ^ 53"
    using d unfolding D_def
    by (simp, metis of_int_less_iff of_int_numeral of_int_power)
  have nC: "num (count v) = Fin C" unfolding C_def using c by (intro num_exact) auto
  have nD: "num (now - firstViolation v) = Fin D" unfolding D_def using d by (intro num_exact) auto
  have nK: "num 1000 = Fin 1000" using num_exact [of 1000] by simp
  have nM: "num (o_maxEventsPerSecond (options rl)) = Fin (rat_of_int (o_maxEventsPerSecond (options rl)))"
    using mx by (intro num_exact) auto
  have small: "(2::rat) powi (- 1022) \<le> 1 / 2 ^ 54"
  proof -
    have "(2::rat) powi (- 1022) \<le> 2 powi (- 54)" by (rule power_int_increasing) simp_all
    also have "\<dots> = 1 / 2 ^ 54" by (simp add: power_int_minus_divide)
    finally show ?thesis .
  qed
  have big: "(2::rat) ^ 64 \<le> 2 powi 1023"
  proof -
    have "(2::rat) powi 64 \<le> 2 powi 1023" by (rule power_int_increasing) simp_all
    then show ?thesis by simp
  qed
  have q0lo: "1 / 2 ^ 53 \<le> q0"
  proof -
    have "1 / 2 ^ 53 \<le> 1 / D" using D by (simp add: frac_le)
    also have "\<dots> \<le> C / D" using C D by (simp add: divide_right_mono)
    finally show ?thesis by (simp add: q0_def)
  qed
  have q0hi: "q0 < 2 ^ 53"
  proof -
    have "C / D \<le> C / 1" using C D by (intro divide_left_mono) auto
    then show ?thesis using C by (simp add: q0_def)
  qed
  have q0pos: "0 < q0" using q0lo by (rule less_le_trans [rotated]) simp
  have "2 powi (- 1022) \<le> q0" using small q0lo by (simp add: order_trans [OF small])
  moreover have "q0 < 2 powi 1023" using q0hi big by (simp add: less_le_trans [OF q0hi])
  ultimately obtain q1 where q1: "to_double q0 = Fin q1" "\<bar>q1 - q0\<bar> \<le> q0 / 2 ^ 53"
    using to_double_normal by blast
  have "q0 / 2 ^ 53 \<le> q0 / 2" using q0pos by (intro divide_left_mono) auto
  then have half: "\<bar>q1 - q0\<bar> \<le> q0 / 2" using q1(2) by linarith
  have q1lo: "q0 / 2 \<le> q1" and q1hi: "q1 \<le> 2 * q0"
    using half q0pos by linarith+
  have "2 powi (- 1022) \<le> q1 * 1000"
    using small q0lo q1lo by (simp add: field_simps)
  moreover have "q1 * 1000 < 2 powi 1023"
  proof -
    have "q1 * 1000 \<le> 2 * q0 * 1000" using q1hi by simp
    also have "\<dots> < 2 * 2 ^ 53 * 1000" using q0hi by simp
    also have "\<dots> \<le> (2::rat) ^ 64" by simp
    finally show ?thesis using big by simp
  qed
  ultimately obtain eps where eps: "to_double (q1 * 1000) = Fin eps"
      "\<bar>eps - q1 * 1000\<bar> \<le> q1 * 1000 / 2 ^ 53"
    using to_double_normal by blast
  have Dne: "D \<noteq> 0" using D by simp
  have ops: "js_multiply (js_divide (num (count v)) (num (now - firstViolation v))) (num 1000) = Fin eps"
    using Dne q1(1) eps(1) by (simp add: nC nD nK q0_def)
  have stats: "getViolationStats now k rl =
      Some \<lparr>vs_count = count v, eventsPerSecond = Fin eps,
            shouldThrottle = (rat_of_int (o_maxEventsPerSecond (options rl)) < eps),
            throttleLatency = o_throttleLatency (options rl)\<rparr>"
    using v by (simp add: getViolationStats_def Let_def ops nM)
  define u where "u = q0 / 2 ^ 53"
  have B: "\<bar>q1 - q0\<bar> \<le> u" using q1(2) by (simp add: u_def)
  have "q1 * 1000 / 2 ^ 53 \<le> 2 * q0 * 1000 / 2 ^ 53"
    using q1hi by (simp add: divide_right_mono)
  also have "\<dots> = 2000 * u" by (simp add: u_def)
  finally have t1: "\<bar>eps - q1 * 1000\<bar> \<le> 2000 * u" using eps(2) by linarith
  have t2: "\<bar>q1 * 1000 - q0 * 1000\<bar> \<le> 1000 * u" using B by linarith
  have "\<bar>eps - q0 * 1000\<bar> \<le> 3000 * u" using t1 t2 by linarith
  also have "\<dots> \<le> q0 * 1000 / 2 ^ 51" using q0pos by (simp add: u_def field_simps)
  finally have "\<bar>eps - q0 * 1000\<bar> \<le> q0 * 1000 / 2 ^ 51" .
  moreover have "q0 * 1000 = rat_of_int (count v) * 1000 / rat_of_int (now - firstViolation v)"
    by (simp add: q0_def C_def D_def)
  ultimately show ?thesis using stats ops by auto
qed

text \<open>
  The instances: one violation, queried 500 ms later; and 161 violations in 40 ms, where
  the double is \<open>4025 + 2^-41\<close> and exceeds a threshold of 4025, which the exact quotient
  does not.
\<close>

theorem violation_stats_formula_witness:
  "violations demo_violated ''s'' = Some \<lparr>count = 1, firstViolation = 1000, lastViolation = 1000\<rparr>
   \<and> (1000::int) < 1500
   \<and> o_maxEventsPerSecond (options demo_violated) = 5
   \<and> getViolationStats 1500 ''s'' demo_violated =
       Some \<lparr>vs_count = 1, eventsPerSecond = Fin 2, shouldThrottle = False, throttleLatency = 2000\<rparr>"
proof -
  define v where "v = \<lparr>count = 1, firstViolation = 1000, lastViolation = 1000\<rparr>"
  have h1: "violations demo_violated ''s'' = Some v"
    by (simp add: demo_violated_def v_def)
  have o: "o_maxEventsPerSecond (options demo_violated) = 5"
      "o_throttleLatency (options demo_violated) = 2000"
    by (simp_all add: demo_violated_def new_RateLimiter_def make_options_def server_args_def
          spread_def js_or_def)
  have c: "0 < count v" "count v < 2 ^ 53" by (simp_all add: v_def)
  have d: "firstViolation v < 1500" "1500 - firstViolation v < 2 ^ 53" by (simp_all add: v_def)
  have mx: "0 \<le> o_maxEventsPerSecond (options demo_violated)"
      "o_maxEventsPerSecond (options demo_violated) < 2 ^ 53"
    using o by simp_all
  from violation_stats_formula [OF h1 c d mx]
  obtain eps where r: "getViolationStats 1500 ''s'' demo_violated =
        Some \<lparr>vs_count = count v, eventsPerSecond = Fin eps,
              shouldThrottle = (rat_of_int (o_maxEventsPerSecond (options demo_violated)) < eps),
              throttleLatency = o_throttleLatency (options demo_violated)\<rparr>"
    and e: "Fin eps = js_multiply (js_divide (num (count v)) (num (1500 - firstViolation v)))
              (num 1000)"
    by blast
  have "eps = 2" using e events_per_second_2 by (simp add: v_def)
  then show ?thesis using r h1 o by (simp add: v_def)
qed

subsection \<open>Constructor defaults\<close>

text \<open>
  Against claim C8 as stated: constructed without options, the limiter's bucket capacity
  is 10, not 20.
\<close>

theorem default_capacity_counterexample:
  "o_capacity (options (new_RateLimiter no_args)) = 10
   \<and> o_capacity (options (new_RateLimiter no_args)) \<noteq> 20"
  by (simp add: new_RateLimiter_def make_options_def no_args_def spread_def js_or_def)

text \<open>
  Claim C8, amended. A limiter constructed without a capacity option has bucket capacity
  10; without the respective option its refill rate is 5 tokens per interval of 1000 ms,
  its ban threshold 50 and its ban duration 300000 ms; a capacity that is passed is taken
  as it is, and the WebSocket server passes 20.
\<close>

theorem constructor_defaults:
  "(a_capacity a = None \<longrightarrow> o_capacity (options (new_RateLimiter a)) = 10)
   \<and> (a_refillRate a = None \<longrightarrow> o_refillRate (options (new_RateLimiter a)) = 5)
   \<and> (a_refillInterval a = None \<longrightarrow> o_refillInterval (options (new_RateLimiter a)) = 1000)
   \<and> (a_banThreshold a = None \<longrightarrow> o_banThreshold (options (new_RateLimiter a)) = 50)
   \<and> (a_banDuration a = None \<longrightarrow> o_banDuration (options (new_RateLimiter a)) = 300000)
   \<and> (a_capacity a = Some c \<longrightarrow> o_capacity (options (new_RateLimiter a)) = c)
   \<and> o_capacity (options (new_RateLimiter server_args)) = 20"
  by (simp add: new_RateLimiter_def make_options_def server_args_def spread_def js_or_def)

text \<open>The instances: no options at all, and the server's options.\<close>

theorem constructor_defaults_witness:
  "a_capacity no_args = None \<and> a_refillRate no_args = None \<and> a_refillInterval no_args = None
   \<and> a_banThreshold no_args = None \<and> a_banDuration no_args = None
   \<and> a_capacity server_args = Some 20
   \<and> o_capacity (options (new_RateLimiter no_args)) = 10
   \<and> o_refillRate (options (new_RateLimiter no_args)) = 5
   \<and> o_refillInterval (options (new_RateLimiter no_args)) = 1000
   \<and> o_banThreshold (options (new_RateLimiter no_args)) = 50
   \<and> o_banDuration (options (new_RateLimiter no_args)) = 300000
   \<and> o_capacity (options (new_RateLimiter server_args)) = 20"
  using constructor_defaults [of no_args 20] constructor_defaults [of server_args 20]
  by (simp add: no_args_def server_args_def)

subsection \<open>Bans\<close>

lemma isAllowed_banned:
  assumes "bannedSessions rl k = Some bn" and "now - bannedAt bn < duration bn"
  shows "isAllowed now k cost rl = (Banned (max 0 (duration bn - (now - bannedAt bn))), rl)"
  using assms
  by (simp add: isAllowed_def isBanned_def getBanTimeRemaining_def Let_def)

lemma apply_call_keeps_ban:
  assumes "bannedSessions rl k = Some bn" and "c \<noteq> Unban k" and "now - bannedAt bn < duration bn"
  shows "bannedSessions (apply_call now c rl) k = Some bn"
  using assms
  by (cases c)
     (auto simp: isAllowed_def isBanned_def getBucket_def store_bucket_def recordViolation_def
        ban_def getTokens_def tryConsume_def reset_def unban_def cleanup_def Let_def
        split: option.splits if_splits prod.splits)

lemma run_calls_keeps_ban:
  assumes "bannedSessions rl k = Some bn"
    and "list_all (\<lambda>(t', call). t' - bannedAt bn < duration bn \<and> call \<noteq> Unban k) calls"
  shows "bannedSessions (run_calls calls rl) k = Some bn"
  using assms
proof (induction calls arbitrary: rl)
  case Nil
  then show ?case by simp
next
  case (Cons a calls)
  obtain t' call where a: "a = (t', call)" by (cases a)
  have "bannedSessions (apply_call t' call rl) k = Some bn"
    using Cons.prems a by (intro apply_call_keeps_ban) auto
  then show ?case using Cons.IH Cons.prems(2) a by simp
qed

lemma isAllowed_options: "options (snd (isAllowed now k c rl)) = options rl"
  by (auto simp: isAllowed_def isBanned_def getBucket_def store_bucket_def recordViolation_def
        ban_def Let_def split: option.splits if_splits prod.splits)

lemma isAllowed_limited_bans:
  assumes "isAllowed t k c rl = (RateLimited a ra, rl1)"
    and "violations rl1 k = Some v" and "o_banThreshold (options rl) \<le> count v"
  shows "bannedSessions rl1 k = Some \<lparr>bannedAt = t, duration = o_banDuration (options rl),
           reason = ''excessive_rate_limit_violations''\<rparr>"
  using assms
  by (auto simp: isAllowed_def isBanned_def getBucket_def store_bucket_def recordViolation_def
        ban_def Let_def split: option.splits if_splits prod.splits)

text \<open>
  Claim C5. When a denied \<^verbatim>\<open>isAllowed\<close> call at time \<open>t\<close> brings the key's violation count
  to the ban threshold or beyond, a ban record with \<open>bannedAt = t\<close> and the configured ban
  duration is created, and after any later calls on the limiter other than \<^verbatim>\<open>unban\<close> of
  that key (admission checks of any key, \<^verbatim>\<open>reset\<close>, which deletes the violation count,
  \<^verbatim>\<open>cleanup\<close>), every \<^verbatim>\<open>isAllowed\<close> call on the key at a clock reading less than the ban
  duration after \<open>t\<close> returns \<^verbatim>\<open>banned\<close> and changes nothing. A key is banned exactly when it
  has a ban record with \<open>now - bannedAt < duration\<close>.
\<close>

theorem ban_monotonicity:
  assumes step: "isAllowed t k c rl = (RateLimited a ra, rl1)"
    and reach: "violations rl1 k = Some v" "o_banThreshold (options rl) \<le> count v"
    and run: "list_all (\<lambda>(t', call). t' - t < o_banDuration (options rl) \<and> call \<noteq> Unban k) calls"
    and later: "t'' - t < o_banDuration (options rl)"
  shows "bannedSessions rl1 k = Some \<lparr>bannedAt = t, duration = o_banDuration (options rl),
            reason = ''excessive_rate_limit_violations''\<rparr>
         \<and> isAllowed t'' k c' (run_calls calls rl1)
             = (Banned (max 0 (o_banDuration (options rl) - (t'' - t))), run_calls calls rl1)
         \<and> (fst (isBanned n x s)
              \<longleftrightarrow> (\<exists>bn. bannedSessions s x = Some bn \<and> n - bannedAt bn < duration bn))"
proof -
  define bn where "bn = \<lparr>bannedAt = t, duration = o_banDuration (options rl),
            reason = ''excessive_rate_limit_violations''\<rparr>"
  have b1: "bannedSessions rl1 k = Some bn"
    unfolding bn_def using step reach by (rule isAllowed_limited_bans)
  have run': "list_all (\<lambda>(t', call). t' - bannedAt bn < duration bn \<and> call \<noteq> Unban k) calls"
    using run by (simp add: bn_def)
  have b2: "bannedSessions (run_calls calls rl1) k = Some bn"
    using b1 run' by (rule run_calls_keeps_ban)
  have "t'' - bannedAt bn < duration bn" using later by (simp add: bn_def)
  from isAllowed_banned [OF b2 this, of c']
  have b3: "isAllowed t'' k c' (run_calls calls rl1)
      = (Banned (max 0 (o_banDuration (options rl) - (t'' - t))), run_calls calls rl1)"
    by (simp add: bn_def)
  have b4: "fst (isBanned n x s)
      \<longleftrightarrow> (\<exists>bn. bannedSessions s x = Some bn \<and> n - bannedAt bn < duration bn)"
    by (auto simp: isBanned_def Let_def split: option.splits)
  show ?thesis using b1 b3 b4 unfolding bn_def by blast
qed

text \<open>
  The instance: the 50th violation at time 1000, then a reset, an admission check and a
  cleanup; at time 5000 the key is still banned, with 296000 ms to go.
\<close>

theorem ban_monotonicity_witness:
  "fst (isAllowed 1000 ''s'' 1 demo_at_limit) = RateLimited 0 (Some 1000)
   \<and> map_option count (violations (snd (isAllowed 1000 ''s'' 1 demo_at_limit)) ''s'') = Some 50
   \<and> o_banThreshold (options demo_at_limit) = 50
   \<and> o_banDuration (options demo_at_limit) = 300000
   \<and> fst (isAllowed 5000 ''s'' 1
         (run_calls [(1500, Reset ''s''), (2000, IsAllowed ''s'' 1), (3000, Cleanup)]
            (snd (isAllowed 1000 ''s'' 1 demo_at_limit)))) = Banned 296000"
proof -
  define rl1 where "rl1 = snd (isAllowed 1000 ''s'' 1 demo_at_limit)"
  have f: "fst (isAllowed 1000 ''s'' 1 demo_at_limit) = RateLimited 0 (Some 1000)"
    by (simp add: demo_at_limit_def new_RateLimiter_def isAllowed_def isBanned_def
          getBucket_def tryConsume_def getTokens_def refill_def store_bucket_def recordViolation_def
          ban_def calculateRetryAfter_def make_options_def server_args_def spread_def js_or_def Let_def)
  have h1: "isAllowed 1000 ''s'' 1 demo_at_limit = (RateLimited 0 (Some 1000), rl1)"
    unfolding rl1_def using f by (metis prod.collapse)
  have h2: "violations rl1 ''s'' = Some \<lparr>count = 50, firstViolation = 500, lastViolation = 1000\<rparr>"
    unfolding rl1_def
    by (simp add: demo_at_limit_def new_RateLimiter_def isAllowed_def isBanned_def
          getBucket_def tryConsume_def getTokens_def refill_def store_bucket_def recordViolation_def
          ban_def calculateRetryAfter_def make_options_def server_args_def spread_def js_or_def Let_def)
  have o: "o_banThreshold (options demo_at_limit) = 50" "o_banDuration (options demo_at_limit) = 300000"
    by (simp_all add: demo_at_limit_def new_RateLimiter_def make_options_def server_args_def
          spread_def js_or_def)
  have h3: "o_banThreshold (options demo_at_limit)
      \<le> count \<lparr>count = 50, firstViolation = 500, lastViolation = 1000\<rparr>"
    using o by simp
  have h4: "list_all (\<lambda>(t', call). t' - 1000 < o_banDuration (options demo_at_limit)
      \<and> call \<noteq> Unban ''s'')
      [(1500, Reset ''s''), (2000, IsAllowed ''s'' 1), (3000, Cleanup)]"
    using o by simp
  have h5: "5000 - 1000 < o_banDuration (options demo_at_limit)" using o by simp
  from ban_monotonicity [OF h1 h2 h3 h4 h5, of 1] f h2 o show ?thesis
    by (simp add: rl1_def)
qed

text \<open>
  Claim C9. For a key that is currently banned, \<^verbatim>\<open>isAllowed\<close> returns \<^verbatim>\<open>banned\<close> with the
  remaining ban time and leaves the whole limiter state as it was: no bucket and no
  violation record is created or changed. The ban check itself never touches buckets,
  violations or options; the only change it can make is to delete the checked key's ban
  record when that record has expired.
\<close>

theorem banned_path_no_mutation:
  assumes "bannedSessions rl k = Some bn" and "now - bannedAt bn < duration bn"
  shows "isAllowed now k cost rl = (Banned (max 0 (duration bn - (now - bannedAt bn))), rl)
         \<and> buckets (snd (isBanned now' k' rl')) = buckets rl'
         \<and> violations (snd (isBanned now' k' rl')) = violations rl'
         \<and> options (snd (isBanned now' k' rl')) = options rl'
         \<and> (bannedSessions (snd (isBanned now' k' rl')) = bannedSessions rl'
            \<or> (\<exists>old. bannedSessions rl' k' = Some old \<and> duration old \<le> now' - bannedAt old
                  \<and> bannedSessions (snd (isBanned now' k' rl')) = (bannedSessions rl')(k' := None)))"
  using assms
  by (auto simp: isAllowed_def isBanned_def getBanTimeRemaining_def Let_def split: option.splits)

text \<open>The instance: a key banned at 1000 for 300000 ms, asked at 2000.\<close>

theorem banned_path_no_mutation_witness:
  "bannedSessions demo_banned ''s'' =
      Some \<lparr>bannedAt = 1000, duration = 300000, reason = ''excessive_rate_limit_violations''\<rparr>
   \<and> (2000::int) - 1000 < 300000
   \<and> isAllowed 2000 ''s'' 1 demo_banned = (Banned 299000, demo_banned)"
proof -
  have h1: "bannedSessions demo_banned ''s'' =
      Some \<lparr>bannedAt = 1000, duration = 300000, reason = ''excessive_rate_limit_violations''\<rparr>"
    by (simp add: demo_banned_def)
  have h2: "2000 - bannedAt \<lparr>bannedAt = 1000, duration = 300000,
      reason = ''excessive_rate_limit_violations''\<rparr>
      < duration \<lparr>bannedAt = 1000, duration = 300000, reason = ''excessive_rate_limit_violations''\<rparr>"
    by simp
  from banned_path_no_mutation [OF h1 h2, of 1] h1 show ?thesis by simp
qed

text \<open>
  Claim C10. \<^verbatim>\<open>reset\<close> deletes the key's bucket and violation record and leaves every ban
  record as it is, so a banned key is still banned after it; \<^verbatim>\<open>unban\<close> deletes the key's
  ban record and its violation record and leaves the buckets alone. No call on the
  limiter removes a key's ban record unless it is \<^verbatim>\<open>unban\<close> of that key or the record has
  expired at the time of the call.
\<close>

theorem reset_keeps_ban:
  "buckets (reset k rl) k = None \<and> violations (reset k rl) k = None
   \<and> bannedSessions (reset k rl) = bannedSessions rl
   \<and> fst (isBanned now k (reset k rl)) = fst (isBanned now k rl)
   \<and> bannedSessions (unban k rl) k = None \<and> violations (unban k rl) k = None
   \<and> buckets (unban k rl) = buckets rl
   \<and> (bannedSessions rl k = Some bn \<and> bannedSessions (apply_call t c rl) k = None
        \<longrightarrow> c = Unban k \<or> duration bn \<le> t - bannedAt bn)"
proof -
  have a: "buckets (reset k rl) k = None \<and> violations (reset k rl) k = None
      \<and> bannedSessions (reset k rl) = bannedSessions rl"
    by (simp add: reset_def)
  have b: "fst (isBanned now k (reset k rl)) = fst (isBanned now k rl)"
    by (simp add: isBanned_def reset_def Let_def split: option.splits)
  have c: "bannedSessions (unban k rl) k = None \<and> violations (unban k rl) k = None
      \<and> buckets (unban k rl) = buckets rl"
    by (simp add: unban_def)
  have d: "c = Unban k \<or> duration bn \<le> t - bannedAt bn"
    if "bannedSessions rl k = Some bn" "bannedSessions (apply_call t c rl) k = None"
  proof (rule ccontr)
    assume "\<not> (c = Unban k \<or> duration bn \<le> t - bannedAt bn)"
    then have "c \<noteq> Unban k" "t - bannedAt bn < duration bn" by auto
    from apply_call_keeps_ban [OF that(1) this] that(2) show False by simp
  qed
  show ?thesis using a b c d by blast
qed

text \<open>
  The instance: a cleanup after the ban has expired removes it; before that the key is
  banned after a reset.
\<close>

theorem reset_keeps_ban_witness:
  "bannedSessions demo_banned ''s'' =
      Some \<lparr>bannedAt = 1000, duration = 300000, reason = ''excessive_rate_limit_violations''\<rparr>
   \<and> bannedSessions (apply_call 400000 Cleanup demo_banned) ''s'' = None
   \<and> (300000::int) \<le> 400000 - 1000
   \<and> fst (isBanned 2000 ''s'' (reset ''s'' demo_banned))
   \<and> bannedSessions (unban ''s'' demo_banned) ''s'' = None"
proof -
  have h1: "bannedSessions demo_banned ''s'' =
      Some \<lparr>bannedAt = 1000, duration = 300000, reason = ''excessive_rate_limit_violations''\<rparr>"
    by (simp add: demo_banned_def)
  have h2: "bannedSessions (apply_call 400000 Cleanup demo_banned) ''s'' = None"
    by (simp add: demo_banned_def cleanup_def Let_def)
  have h3: "fst (isBanned 2000 ''s'' demo_banned)"
    by (simp add: demo_banned_def isBanned_def Let_def)
  from reset_keeps_ban [of "''s''" demo_banned 2000 _ 400000 Cleanup] h1 h2 h3
  show ?thesis by simp
qed

section \<open>Properties of the admin API\<close>

text \<open>
  Claim C1. For every route under \<^verbatim>\<open>/admin\<close> and every request whose \<^verbatim>\<open>X-API-Key\<close> header
  is absent or differs from the configured secret, the response is
  \<^verbatim>\<open>401 {error: "Unauthorized"}\<close> and the stores and the command bus are left exactly as
  they were: no handler runs.
\<close>

theorem auth_totality:
  assumes "x_api_key req \<noteq> Some (validKey env)"
  shows "admin_request env req st = (\<lparr>status = 401, body = Unauthorized\<rparr>, st)"
  using assms by (simp add: admin_request_def preHandler_def send_def)

text \<open>The instances: a wrong key on \<^verbatim>\<open>upspin\<close>, no key on \<^verbatim>\<open>terminate\<close>.\<close>

theorem auth_totality_witness:
  "x_api_key (demo_request (Some ''guess'') (POST_upspin ''abcd'')) \<noteq> Some (validKey None)
   \<and> admin_request None (demo_request (Some ''guess'') (POST_upspin ''abcd'')) demo_stores
       = (\<lparr>status = 401, body = Unauthorized\<rparr>, demo_stores)
   \<and> admin_request None (demo_request None (POST_terminate ''abcd'' None)) demo_stores
       = (\<lparr>status = 401, body = Unauthorized\<rparr>, demo_stores)"
proof -
  have h1: "x_api_key (demo_request (Some ''guess'') (POST_upspin ''abcd'')) \<noteq> Some (validKey None)"
    by (simp add: demo_request_def validKey_def)
  have h2: "x_api_key (demo_request None (POST_terminate ''abcd'' None)) \<noteq> Some (validKey None)"
    by (simp add: demo_request_def)
  from auth_totality [OF h1] auth_totality [OF h2] h1 show ?thesis by simp
qed






section \<open>Properties of the WebSocket server\<close>

lemmas ws_defs = handleMessage_def on_connection_def sendToClient_def ws_close_def
  new_ws_server_def handshake_frame_def route_message_def handleHandshake_def
  isAllowed_def isBanned_def getBucket_def tryConsume_def getTokens_def refill_def
  store_bucket_def recordViolation_def ban_def new_TokenBucket_def
  new_RateLimiter_def make_options_def server_args_def spread_def js_or_def Let_def

lemma two_sockets_conns:
  "connections two_sockets =
     [(''c-1'', \<lparr>conn_ip = ''10.0.0.1'', sessionHash = None, readyState_open = True,
                connectedAt = 10, lastActivity = 10, eventCount = 0,
                outbox = [Frame_connected ''c-1'' 10]\<rparr>),
      (''c-2'', \<lparr>conn_ip = ''10.0.0.2'', sessionHash = None, readyState_open = True,
                connectedAt = 20, lastActivity = 20, eventCount = 0,
                outbox = [Frame_connected ''c-2'' 20]\<rparr>)]"
  by (simp add: two_sockets_def ws_defs)

lemma one_handshake_conns:
  "connections one_handshake =
     [(''c-1'', \<lparr>conn_ip = ''10.0.0.1'', sessionHash = Some ''abcd'', readyState_open = True,
                connectedAt = 10, lastActivity = 30, eventCount = 1,
                outbox = [Frame_connected ''c-1'' 10]\<rparr>),
      (''c-2'', \<lparr>conn_ip = ''10.0.0.2'', sessionHash = None, readyState_open = True,
                connectedAt = 20, lastActivity = 20, eventCount = 0,
                outbox = [Frame_connected ''c-2'' 20]\<rparr>)]"
  unfolding one_handshake_def
  by (simp add: handleMessage_def two_sockets_conns)
     (simp add: two_sockets_def ws_defs)

lemma one_handshake_limiter:
  "bannedSessions (rateLimiter one_handshake) = Map.empty
   \<and> buckets (rateLimiter one_handshake) ''abcd''
       = Some \<lparr>capacity = 20, tokens = 19, refillRate = 5, refillInterval = 1000, lastRefill = 30\<rparr>"
  unfolding one_handshake_def
  by (simp add: handleMessage_def two_sockets_conns)
     (simp add: two_sockets_def ws_defs)

lemma two_handshakes_conns:
  "connections two_handshakes =
     [(''c-1'', \<lparr>conn_ip = ''10.0.0.1'', sessionHash = Some ''abcd'', readyState_open = True,
                connectedAt = 10, lastActivity = 30, eventCount = 1,
                outbox = [Frame_connected ''c-1'' 10]\<rparr>),
      (''c-2'', \<lparr>conn_ip = ''10.0.0.2'', sessionHash = Some ''abcd'', readyState_open = True,
                connectedAt = 20, lastActivity = 40, eventCount = 1,
                outbox = [Frame_connected ''c-2'' 20]\<rparr>)]"
  unfolding two_handshakes_def
  by (simp add: handleMessage_def one_handshake_conns)
     (simp add: one_handshake_conns one_handshake_limiter handshake_frame_def route_message_def handleHandshake_def
        isAllowed_def isBanned_def getBucket_def tryConsume_def getTokens_def refill_def
        store_bucket_def Let_def)

text \<open>
  Against claim C4 as stated: after two sockets have each sent a handshake for the same
  sessionHash, both connections are bound to it and both are open, the older one
  included, and a command published for the hash is sent on both.
\<close>

theorem one_binding_counterexample:
  "map (\<lambda>(k, c). (k, sessionHash c, readyState_open c)) (connections two_handshakes)
     = [(''c-1'', Some ''abcd'', True), (''c-2'', Some ''abcd'', True)]
   \<and> length (bound_connections ''abcd'' two_handshakes) = 2
   \<and> map (\<lambda>(k, c). (k, outbox c))
        (connections (deliver_command ''abcd'' (Frame_command SET_LATENCY (Latency 0))
           two_handshakes))
     = [(''c-1'', [Frame_connected ''c-1'' 10, Frame_command SET_LATENCY (Latency 0)]),
        (''c-2'', [Frame_connected ''c-2'' 20, Frame_command SET_LATENCY (Latency 0)])]"
  by (simp add: bound_connections_def deliver_command_def sendToClient_def two_handshakes_conns)

lemma map_of_map_set: "map_of (map_set k v xs) k' = (if k' = k then Some v else map_of xs k')"
  by (induction xs) auto

lemma map_fst_map_set: "map_of xs k \<noteq> None \<Longrightarrow> map fst (map_set k v xs) = map fst xs"
  by (induction xs) auto

text \<open>
  Claim C4, amended. A frame received on a live connection binds that connection to the
  frame's sessionHash when the connection is not yet bound (a bound connection keeps its
  sessionHash), and it neither adds nor removes a connection nor changes any other
  connection: no other connection is closed or unbound, also when it is bound to the same
  sessionHash. The number of live connections bound to one sessionHash is therefore not
  limited to 1.
\<close>

theorem frame_binds_own_connection_only:
  assumes "map_of (connections srv) cid = Some c"
  shows "map fst (connections (handleMessage now cid (Some m) srv)) = map fst (connections srv)
         \<and> (\<forall>other. other \<noteq> cid \<longrightarrow>
               map_of (connections (handleMessage now cid (Some m) srv)) other
                 = map_of (connections srv) other)
         \<and> map_option sessionHash (map_of (connections (handleMessage now cid (Some m) srv)) cid)
             = Some (case sessionHash c of Some h \<Rightarrow> Some h | None \<Rightarrow> msg_sessionHash m)"
proof -
  obtain r rl1 where adm: "isAllowed now (case msg_sessionHash m of Some h \<Rightarrow> h | None \<Rightarrow> cid) 1
      (rateLimiter srv) = (r, rl1)"
    by (cases "isAllowed now (case msg_sessionHash m of Some h \<Rightarrow> h | None \<Rightarrow> cid) 1
      (rateLimiter srv)")
  have ne: "map_of (connections srv) cid \<noteq> None" using assms by simp
  note facts = handleMessage_def Let_def map_of_map_set map_fst_map_set [OF ne]
  show ?thesis
  proof (cases r)
    case (Allowed n)
    then show ?thesis using assms adm
      by (cases "sessionHash c"; cases "msg_sessionHash m")
         (simp_all add: facts split: prod.splits)
  next
    case (RateLimited a ra)
    then show ?thesis using assms adm
      by (cases "sessionHash c"; cases "msg_sessionHash m")
         (simp_all add: facts)
  next
    case (Banned ra)
    then show ?thesis using assms adm
      by (cases "sessionHash c"; cases "msg_sessionHash m")
         (simp_all add: facts ws_close_def sendToClient_def)
  qed
qed

text \<open>The instance: the second handshake of the two above.\<close>

theorem frame_binds_own_connection_only_witness:
  "map_option sessionHash (map_of (connections one_handshake) ''c-2'') = Some None
   \<and> map_option sessionHash (map_of (connections one_handshake) ''c-1'') = Some (Some ''abcd'')
   \<and> map_of (connections two_handshakes) ''c-1'' = map_of (connections one_handshake) ''c-1''
   \<and> map_option sessionHash (map_of (connections two_handshakes) ''c-2'') = Some (Some ''abcd'')
   \<and> map fst (connections two_handshakes) = [''c-1'', ''c-2'']"
proof -
  have h: "map_of (connections one_handshake) ''c-2'' =
      Some \<lparr>conn_ip = ''10.0.0.2'', sessionHash = None, readyState_open = True,
            connectedAt = 20, lastActivity = 20, eventCount = 0,
            outbox = [Frame_connected ''c-2'' 20]\<rparr>"
    by (simp add: one_handshake_conns)
  from frame_binds_own_connection_only [OF h, of 40 "handshake_frame ''abcd''",
      folded two_handshakes_def]
  show ?thesis
    by (auto simp: one_handshake_conns handshake_frame_def)
qed

section \<open>Properties of the beacon endpoint\<close>

lemma log_events_no_reply: "list_all (\<lambda>e. \<not> is_reply e) (log_events rejects es)"
  by (induction es) auto

lemma run_immediate_no_reply: "list_all (\<lambda>e. \<not> is_reply e) (run_immediate rejects v)"
  by (simp add: run_immediate_def log_events_no_reply split: option.splits)

text \<open>
  A request that reaches the handler is answered 204 before anything else happens, and
  the events of a body \<^verbatim>\<open>{events: [...]}\<close> are then handed to the event sink, one call each
  and in order, as far as the sink takes them.
\<close>

lemma beacon_handled_204:
  "reply_sent (beacon_request rejects (handled v)) = Some 204
   \<and> (\<exists>later. effects (beacon_request rejects (handled v)) = Reply 204 # later
         \<and> list_all (\<lambda>e. \<not> is_reply e) later)"
  by (auto simp: beacon_request_def beacon_route_def handled_def beacon_handler_def reply_send_def
        setImmediate_def idle_loop_def run_immediate_no_reply Let_def split: option.splits)

lemma log_events_all: "list_all (\<lambda>e. \<not> rejects e) es \<Longrightarrow> log_events rejects es = map LogEventCall es"
  by (induction es) auto

lemma beacon_events_logged:
  assumes "map_of (rev kvs) ''events'' = Some (Array es)" and "list_all (\<lambda>e. \<not> rejects e) es"
  shows "effects (beacon_request rejects (handled (Object kvs))) = Reply 204 # map LogEventCall es"
  using assms
  by (simp add: beacon_request_def beacon_route_def handled_def beacon_handler_def reply_send_def
        setImmediate_def idle_loop_def run_immediate_def log_events_all Let_def)

lemma beacon_examples:
  "effects (beacon_request (\<lambda>e. False)
       (handled (Object [(''events'', Array [Object [(''type'', String ''click'')], Number 7])])))
     = [Reply 204, LogEventCall (Object [(''type'', String ''click'')]), LogEventCall (Number 7)]
   \<and> effects (beacon_request (\<lambda>e. False) (handled (String ''{not json''))) = [Reply 204]
   \<and> effects (beacon_request (\<lambda>e. False) (handled Undefined)) = [Reply 204]"
  by (simp add: beacon_request_def beacon_route_def handled_def beacon_handler_def reply_send_def
        setImmediate_def idle_loop_def run_immediate_def Let_def)

text \<open>
  Claim C7 does not hold of the code. The claim, and the handler's own comment
  (\<^verbatim>\<open>Always return 204 for beacon\<close>), say 204 also for a malformed body. The handler's
  \<^verbatim>\<open>try\<close>/\<^verbatim>\<open>catch\<close> encloses only the handler body, and a body that is not well-formed JSON
  under \<^verbatim>\<open>application/json\<close> never reaches it: the request is answered 400, and no event
  is handed to the sink.
\<close>

theorem beacon_malformed_json_400:
  "reply_sent (beacon_request rejects malformed_json_beacon) = Some 400
   \<and> effects (beacon_request rejects malformed_json_beacon) = [Reply 400]"
  by (simp add: beacon_request_def beacon_route_def malformed_json_beacon_def reply_send_def
        idle_loop_def Let_def)

end
